theory Spec2Isabelle
  imports Complex_Main "HOL-Library.Sublist"
begin

section \<open>Boolean combination of shells: the keep policy\<close>

text \<open>
  The embedding follows \<^verbatim>\<open>src/srf/boolean.cpp\<close>. Enumerations become datatypes, an
  \<^verbatim>\<open>ssassert\<close> that fires becomes the left summand of a sum type.
\<close>

subsection \<open>Enumerations and errors\<close>

text \<open>
  \<^verbatim>\<open>SSurface::CombineAs\<close> is declared in a header outside the translated file. The
  switch of \<^verbatim>\<open>KeepRegion\<close> names \<^verbatim>\<open>UNION\<close> and \<^verbatim>\<open>DIFFERENCE\<close> and has a
  \<^verbatim>\<open>default\<close> branch for every other value of the enumeration; that remainder is the
  third constructor.
\<close>

datatype CombineAs = UNION | DIFFERENCE | OTHER_COMBINE

text \<open>\<^verbatim>\<open>SShell::Class\<close>: the classification of a region against a shell.\<close>

datatype SShell_Class = INSIDE | OUTSIDE | COINC_SAME | COINC_OPP

text \<open>The fatal assertions of the file, by their messages.\<close>

datatype error =
    Unexpected_combine_type
  | Cannot_split_an_empty_curve
  | Need_at_least_one_edge
  | Cannot_find_handle
  | Index_out_of_range

subsection \<open>KeepRegion and KeepEdge\<close>

definition KeepRegion :: "CombineAs \<Rightarrow> bool \<Rightarrow> SShell_Class \<Rightarrow> SShell_Class \<Rightarrow> error + bool" where
  "KeepRegion type opA shell orig =
    (let inShell = (shell = INSIDE);
         inSame  = (shell = COINC_SAME);
         inOpp   = (shell = COINC_OPP);
         inOrig  = (orig = INSIDE);
         inFace  = (inSame \<or> inOpp)
     in if \<not> inOrig then Inr False
        else (case type of
            UNION \<Rightarrow>
              if opA then Inr (\<not> inShell \<and> \<not> inFace)
              else Inr ((\<not> inShell \<and> \<not> inFace) \<or> inSame)
          | DIFFERENCE \<Rightarrow>
              if opA then Inr (\<not> inShell \<and> \<not> inFace)
              else Inr ((inShell \<and> \<not> inFace) \<or> inSame)
          | OTHER_COMBINE \<Rightarrow> Inl Unexpected_combine_type))"

definition KeepEdge ::
  "CombineAs \<Rightarrow> bool \<Rightarrow> SShell_Class \<Rightarrow> SShell_Class \<Rightarrow> SShell_Class \<Rightarrow> SShell_Class
     \<Rightarrow> error + bool" where
  "KeepEdge type opA indir_shell outdir_shell indir_orig outdir_orig =
    (case KeepRegion type opA indir_shell indir_orig of
       Inl e \<Rightarrow> Inl e
     | Inr keepIn \<Rightarrow>
        (case KeepRegion type opA outdir_shell outdir_orig of
           Inl e \<Rightarrow> Inl e
         | Inr keepOut \<Rightarrow>
            if keepIn \<and> \<not> keepOut then Inr True else Inr False))"

text \<open>
  The keep table as the specification words it, for a side that lies within the face
  (\<open>inFace\<close> is membership of the shell classification in \<open>{COINC_SAME, COINC_OPP}\<close>).
\<close>

definition spec_keep_table :: "CombineAs \<Rightarrow> bool \<Rightarrow> SShell_Class \<Rightarrow> bool" where
  "spec_keep_table type opA shell =
    (let inFace = (shell = COINC_SAME \<or> shell = COINC_OPP) in
       if opA then shell \<noteq> INSIDE \<and> \<not> inFace
       else if type = UNION then (shell \<noteq> INSIDE \<and> \<not> inFace) \<or> shell = COINC_SAME
       else (shell = INSIDE \<and> \<not> inFace) \<or> shell = COINC_SAME)"

section \<open>Data model\<close>

text \<open>
  Doubles are modelled as reals. A field \<open>f\<close> of a structure is named after the variable the
  source uses for a pointer to that structure (\<open>sc\<close>, \<open>ss\<close>, \<open>se\<close>, \<open>sp\<close>, \<open>stb\<close>),
  followed by \<open>f\<close>, since several structures share the names \<open>h\<close>, \<open>newH\<close>, \<open>tag\<close>,
  \<open>p\<close>, \<open>a\<close> and \<open>b\<close>.
\<close>

datatype Point2d = Point2d (px: real) (py: real)

datatype Vector = Vector (vx: real) (vy: real) (vz: real)

definition Point2d_Plus :: "Point2d \<Rightarrow> Point2d \<Rightarrow> Point2d" where
  "Point2d_Plus p q = Point2d (px p + px q) (py p + py q)"

definition Point2d_Minus :: "Point2d \<Rightarrow> Point2d \<Rightarrow> Point2d" where
  "Point2d_Minus p q = Point2d (px p - px q) (py p - py q)"

definition Point2d_ScaledBy :: "Point2d \<Rightarrow> real \<Rightarrow> Point2d" where
  "Point2d_ScaledBy p s = Point2d (px p * s) (py p * s)"

definition Point2d_Dot :: "Point2d \<Rightarrow> Point2d \<Rightarrow> real" where
  "Point2d_Dot p q = px p * px q + py p * py q"

definition Vector_Plus :: "Vector \<Rightarrow> Vector \<Rightarrow> Vector" where
  "Vector_Plus p q = Vector (vx p + vx q) (vy p + vy q) (vz p + vz q)"

definition Vector_Minus :: "Vector \<Rightarrow> Vector \<Rightarrow> Vector" where
  "Vector_Minus p q = Vector (vx p - vx q) (vy p - vy q) (vz p - vz q)"

definition Vector_Dot :: "Vector \<Rightarrow> Vector \<Rightarrow> real" where
  "Vector_Dot p q = vx p * vx q + vy p * vy q + vz p * vz q"

definition Vector_Cross :: "Vector \<Rightarrow> Vector \<Rightarrow> Vector" where
  "Vector_Cross p q =
     Vector (vy p * vz q - vz p * vy q) (vz p * vx q - vx p * vz q) (vx p * vy q - vy p * vx q)"

definition Vector_MagSquared :: "Vector \<Rightarrow> real" where
  "Vector_MagSquared p = vx p * vx p + vy p * vy p + vz p * vz p"

definition Vector_ProjectXy :: "Vector \<Rightarrow> Point2d" where
  "Vector_ProjectXy p = Point2d (vx p) (vy p)"

text \<open>\<^verbatim>\<open>SBspUv::Class\<close>: the classification of a point or an edge against a UV BSP.\<close>

datatype SBspUv_Class =
  BSP_INSIDE | BSP_OUTSIDE | EDGE_PARALLEL | EDGE_ANTIPARALLEL | EDGE_OTHER

text \<open>
  A node of the UV BSP: the segment \<open>(a, b)\<close> and the pointers \<open>pos\<close>, \<open>neg\<close> and \<open>more\<close>. A
  pointer to a node is an \<open>option\<close>, \<open>None\<close> for \<^verbatim>\<open>NULL\<close>.
\<close>

datatype SBspUv = SBspUv (bsp_a: Point2d) (bsp_b: Point2d)
  (pos: "SBspUv option") (neg: "SBspUv option") (more: "SBspUv option")

type_synonym hSCurve = nat
type_synonym hSSurface = nat

text \<open>
  The value \<open>v\<close> of a handle is a \<^verbatim>\<open>uint32_t\<close>, the \<open>auxA\<close> and \<open>auxB\<close> of an edge are
  \<^verbatim>\<open>int\<close>. The conversions between the two wrap around modulo \<open>2\<^sup>3\<^sup>2\<close>.
\<close>

definition uint32_of_int :: "int \<Rightarrow> nat" where
  "uint32_of_int i = nat (i mod 2 ^ 32)"

definition int_of_uint32 :: "nat \<Rightarrow> int" where
  "int_of_uint32 n =
    (let m = int (n mod 2 ^ 32) in if m < 2 ^ 31 then m else m - 2 ^ 32)"

record SCurvePt =
  pt_tag :: int
  pt_p :: Vector
  pt_vertex :: bool

record SEdge =
  se_tag :: int
  se_auxA :: int
  se_auxB :: int
  se_a :: Vector
  se_b :: Vector

record SPoint =
  sp_tag :: int
  sp_p :: Vector

record STrimBy =
  stb_curve :: hSCurve
  stb_backwards :: bool
  stb_start :: Vector
  stb_finish :: Vector

datatype SCurve_Source = Source_A | Source_B | Source_INTERSECTION

text \<open>
  The exact form of a curve (\<^verbatim>\<open>sc->exact\<close>), as far as this file reads it: its degree and
  its two evaluators.
\<close>

record SBezier =
  bz_deg :: int
  bz_PointAt :: "real \<Rightarrow> Vector"
  bz_ClosestPointTo :: "Vector \<Rightarrow> bool \<Rightarrow> real"

record SCurve =
  sc_h :: hSCurve
  sc_newH :: hSCurve
  sc_isExact :: bool
  sc_exact :: SBezier
  sc_surfA :: hSSurface
  sc_surfB :: hSSurface
  sc_pts :: "SCurvePt list"
  sc_source :: SCurve_Source

text \<open>
  A surface: its handle, the \<open>newH\<close> slot, the trim list, the classifying BSP, the XYZ
  edge list, and the parametric evaluator of the patch (the methods \<^verbatim>\<open>PointAt\<close>,
  \<^verbatim>\<open>NormalAt\<close>, \<^verbatim>\<open>TangentsAt\<close> and \<^verbatim>\<open>ClosestPointTo\<close>, which are implemented
  outside the translated file, as functions of the surface).
\<close>

record SSurface =
  ss_h :: hSSurface
  ss_newH :: hSSurface
  ss_trim :: "STrimBy list"
  ss_bsp :: "SBspUv option"
  ss_edges :: "SEdge list"
  ss_PointAt :: "Point2d \<Rightarrow> Vector"
  ss_NormalAt :: "real \<Rightarrow> real \<Rightarrow> Vector"
  ss_TangentsAt :: "real \<Rightarrow> real \<Rightarrow> Vector \<times> Vector"
  ss_ClosestPointTo :: "Vector \<Rightarrow> bool \<Rightarrow> Point2d"

record SShell =
  curve :: "SCurve list"
  surface :: "SSurface list"
  booleanFailed :: bool

text \<open>
  Shells are objects in memory: a pointer to a shell is an address, the store maps an
  address to the shell it holds. A pointer to a surface points into the surface list of a
  shell: the shell's address and the position in the list. A pointer that may be
  \<^verbatim>\<open>NULL\<close> is an \<open>option\<close>.
\<close>

type_synonym SShell_ptr = nat
type_synonym store = "SShell_ptr \<Rightarrow> SShell"
type_synonym SSurface_ptr = "SShell_ptr \<times> nat"

definition SurfaceAt :: "store \<Rightarrow> SSurface_ptr \<Rightarrow> SSurface" where
  "SurfaceAt st ptr = surface (st (fst ptr)) ! snd ptr"

record SInter =
  si_tag :: int
  si_p :: Vector
  si_srf :: SSurface_ptr

datatype MakeAs = UV | XYZ

datatype Quaternion = Quaternion (qw: real) (qvx: real) (qvy: real) (qvz: real)

definition Quaternion_IDENTITY :: Quaternion where
  "Quaternion_IDENTITY = Quaternion 1 0 0 0"

section \<open>External collaborators\<close>

text \<open>
  What the file calls and does not define: the tolerances, the vector utilities with a
  tolerance or a special case, and the routines of surfaces, curves, shells and edge
  lists. They are parameters of the embedding; every theorem below holds for each choice
  of them. A routine that appends to a list it is handed (\<^verbatim>\<open>AllPointsIntersecting\<close>,
  \<^verbatim>\<open>MakeEdgesInto\<close>, \<^verbatim>\<open>IntersectAgainst\<close>) returns what it appends, and
  \<^verbatim>\<open>RemoveShortSegments\<close> returns the new point list of the curve. The diagnostics
  (\<^verbatim>\<open>dbp\<close>, \<^verbatim>\<open>DEBUGEDGELIST\<close> and the counter \<^verbatim>\<open>I\<close>) are left out.
\<close>

record env =
  LENGTH_EPS :: real
  VERY_POSITIVE :: real
  ChordTolMm :: real
  Vector_Magnitude :: "Vector \<Rightarrow> real"
  Vector_WithMagnitude :: "Vector \<Rightarrow> real \<Rightarrow> Vector"
  Vector_Equals :: "Vector \<Rightarrow> Vector \<Rightarrow> bool"
  Vector_DivProjected :: "Vector \<Rightarrow> Vector \<Rightarrow> real"
  Point2d_Normal :: "Point2d \<Rightarrow> Point2d"
  Point2d_WithMagnitude :: "Point2d \<Rightarrow> real \<Rightarrow> Point2d"
  Point2d_DistanceToLine :: "Point2d \<Rightarrow> Point2d \<Rightarrow> Point2d \<Rightarrow> bool \<Rightarrow> real"
  AllPointsIntersecting ::
    "store \<Rightarrow> SShell_ptr \<Rightarrow> Vector \<Rightarrow> Vector \<Rightarrow> bool \<Rightarrow> bool \<Rightarrow> bool \<Rightarrow> SInter list"
  PointOnSurfaces :: "SSurface \<Rightarrow> SSurface option \<Rightarrow> SSurface option \<Rightarrow> Point2d \<Rightarrow> Point2d"
  ClosestPointOnThisAndSurface :: "SSurface \<Rightarrow> SSurface \<Rightarrow> Vector \<Rightarrow> Vector"
  Reverse :: "SSurface \<Rightarrow> SSurface"
  MakeEdgesInto :: "store \<Rightarrow> SSurface \<Rightarrow> SShell_ptr \<Rightarrow> MakeAs \<Rightarrow> SShell_ptr option \<Rightarrow> SEdge list"
  IntersectAgainst ::
    "store \<Rightarrow> SSurface_ptr \<Rightarrow> SSurface_ptr \<Rightarrow> SShell_ptr \<Rightarrow> SShell_ptr \<Rightarrow> SShell_ptr \<Rightarrow> SCurve list"
  RemoveShortSegments :: "SCurve \<Rightarrow> SSurface \<Rightarrow> SSurface \<Rightarrow> SCurvePt list"
  SCurve_FromTransformationOf :: "SCurve \<Rightarrow> Vector \<Rightarrow> Quaternion \<Rightarrow> real \<Rightarrow> SCurve"
  SSurface_FromTransformationOf ::
    "SSurface \<Rightarrow> Vector \<Rightarrow> Quaternion \<Rightarrow> real \<Rightarrow> bool \<Rightarrow> SSurface"
  Shell_ClassifyEdge ::
    "store \<Rightarrow> SShell_ptr \<Rightarrow> Vector \<Rightarrow> Vector \<Rightarrow> Vector \<Rightarrow> Vector \<Rightarrow> Vector \<Rightarrow> Vector
       \<Rightarrow> SShell_Class \<times> SShell_Class"
  CullExtraneousEdges :: "SEdge list \<Rightarrow> SEdge list"
  AssemblePolygon :: "SEdge list \<Rightarrow> bool \<Rightarrow> bool"

section \<open>The UV BSP\<close>

definition ScalePoints ::
  "env \<Rightarrow> Point2d \<Rightarrow> Point2d \<Rightarrow> Point2d \<Rightarrow> SSurface \<Rightarrow> Point2d \<times> Point2d \<times> Point2d" where
  "ScalePoints E pt a b srf =
    (let (tu, tv) = ss_TangentsAt srf (px pt) (py pt);
         mu = Vector_Magnitude E tu;
         mv = Vector_Magnitude E tv
     in (Point2d (px pt * mu) (py pt * mv),
         Point2d (px a * mu) (py a * mv),
         Point2d (px b * mu) (py b * mv)))"

definition ScaledSignedDistanceToLine ::
  "env \<Rightarrow> Point2d \<Rightarrow> Point2d \<Rightarrow> Point2d \<Rightarrow> SSurface \<Rightarrow> real" where
  "ScaledSignedDistanceToLine E pt a b srf =
    (let (pt', a', b') = ScalePoints E pt a b srf;
         n = Point2d_WithMagnitude E (Point2d_Normal E (Point2d_Minus b' a')) 1;
         d = Point2d_Dot a' n
     in Point2d_Dot pt' n - d)"

definition ScaledDistanceToLine ::
  "env \<Rightarrow> Point2d \<Rightarrow> Point2d \<Rightarrow> Point2d \<Rightarrow> bool \<Rightarrow> SSurface \<Rightarrow> real" where
  "ScaledDistanceToLine E pt a b asSegment srf =
    (let (pt', a', b') = ScalePoints E pt a b srf
     in Point2d_DistanceToLine E pt' a' b' asSegment)"

text \<open>
  The \<^verbatim>\<open>while(f)\<close> loop of \<^verbatim>\<open>ClassifyPoint\<close> over the node and its \<open>more\<close> chain:
  \<open>Some c\<close> when it returns the class \<open>c\<close> from inside the loop, \<open>None\<close> when the loop
  runs off the end of the chain.
\<close>

fun ClassifyPoint_chain ::
  "env \<Rightarrow> Point2d \<Rightarrow> Point2d \<Rightarrow> SSurface \<Rightarrow> SBspUv option \<Rightarrow> SBspUv_Class option" where
  "ClassifyPoint_chain E p eb srf None = None"
| "ClassifyPoint_chain E p eb srf (Some (SBspUv fa fb fpos fneg fmore)) =
    (let ba = Point2d_Minus fb fa in
     if ScaledDistanceToLine E p fa ba True srf < LENGTH_EPS E then
       (if ScaledDistanceToLine E eb fa ba False srf < LENGTH_EPS E then
          (if Point2d_Dot ba (Point2d_Minus eb p) > 0 then Some EDGE_PARALLEL
           else Some EDGE_ANTIPARALLEL)
        else Some EDGE_OTHER)
     else ClassifyPoint_chain E p eb srf fmore)"

fun ClassifyPoint :: "env \<Rightarrow> SBspUv \<Rightarrow> Point2d \<Rightarrow> Point2d \<Rightarrow> SSurface \<Rightarrow> SBspUv_Class" where
  "ClassifyPoint E (SBspUv a b bpos bneg bmore) p eb srf =
    (let dp = ScaledSignedDistanceToLine E p a b srf in
     if \<bar>dp\<bar> < LENGTH_EPS E then
       (case ClassifyPoint_chain E p eb srf (Some (SBspUv a b bpos bneg bmore)) of
          Some c \<Rightarrow> c
        | None \<Rightarrow>
           (let c1 = (case bneg of Some n \<Rightarrow> ClassifyPoint E n p eb srf | None \<Rightarrow> BSP_OUTSIDE);
                c2 = (case bpos of Some n \<Rightarrow> ClassifyPoint E n p eb srf | None \<Rightarrow> BSP_INSIDE)
            in c1))
     else if dp > 0 then
       (case bpos of Some n \<Rightarrow> ClassifyPoint E n p eb srf | None \<Rightarrow> BSP_INSIDE)
     else
       (case bneg of Some n \<Rightarrow> ClassifyPoint E n p eb srf | None \<Rightarrow> BSP_OUTSIDE))"

definition ClassifyEdge :: "env \<Rightarrow> SBspUv \<Rightarrow> Point2d \<Rightarrow> Point2d \<Rightarrow> SSurface \<Rightarrow> SBspUv_Class" where
  "ClassifyEdge E bsp ea eb srf =
    (let ret = ClassifyPoint E bsp (Point2d_ScaledBy (Point2d_Plus ea eb) 0.5) eb srf in
     if ret = EDGE_OTHER then
       ClassifyPoint E bsp (Point2d_Plus ea (Point2d_ScaledBy (Point2d_Minus eb ea) 0.294)) eb srf
     else ret)"

fun MinimumDistanceToEdge :: "env \<Rightarrow> SBspUv \<Rightarrow> Point2d \<Rightarrow> SSurface \<Rightarrow> real" where
  "MinimumDistanceToEdge E (SBspUv a b bpos bneg bmore) p srf =
    (let dn = (case bneg of Some n \<Rightarrow> MinimumDistanceToEdge E n p srf | None \<Rightarrow> VERY_POSITIVE E);
         dp = (case bpos of Some n \<Rightarrow> MinimumDistanceToEdge E n p srf | None \<Rightarrow> VERY_POSITIVE E);
         (p', as, bs) = ScalePoints E p a b srf;
         d = Point2d_DistanceToLine E p' as (Point2d_Minus bs as) True
     in min d (min dn dp))"

text \<open>
  Insertion of the segment \<open>(ea, eb)\<close>. \<^verbatim>\<open>Alloc\<close> returns zeroed temporary memory, so a
  fresh node has null \<open>pos\<close>, \<open>neg\<close> and \<open>more\<close>. \<^verbatim>\<open>InsertEdge\<close> changes the node in
  place; here it returns the changed node.
\<close>

fun InsertOrCreateEdge ::
    "env \<Rightarrow> SBspUv option \<Rightarrow> Point2d \<Rightarrow> Point2d \<Rightarrow> SSurface \<Rightarrow> SBspUv"
  and InsertEdge :: "env \<Rightarrow> SBspUv \<Rightarrow> Point2d \<Rightarrow> Point2d \<Rightarrow> SSurface \<Rightarrow> SBspUv" where
  "InsertOrCreateEdge E None ea eb srf = SBspUv ea eb None None None"
| "InsertOrCreateEdge E (Some n) ea eb srf = InsertEdge E n ea eb srf"
| "InsertEdge E (SBspUv a b bpos bneg bmore) ea eb srf =
    (let dea = ScaledSignedDistanceToLine E ea a b srf;
         deb = ScaledSignedDistanceToLine E eb a b srf
     in if \<bar>dea\<bar> < LENGTH_EPS E \<and> \<bar>deb\<bar> < LENGTH_EPS E then
          SBspUv a b bpos bneg (Some (SBspUv ea eb None None bmore))
        else if \<bar>dea\<bar> < LENGTH_EPS E then
          (if deb > 0 then SBspUv a b (Some (InsertOrCreateEdge E bpos ea eb srf)) bneg bmore
           else SBspUv a b bpos (Some (InsertOrCreateEdge E bneg ea eb srf)) bmore)
        else if \<bar>deb\<bar> < LENGTH_EPS E then
          (if dea > 0 then SBspUv a b (Some (InsertOrCreateEdge E bpos ea eb srf)) bneg bmore
           else SBspUv a b bpos (Some (InsertOrCreateEdge E bneg ea eb srf)) bmore)
        else if dea > 0 \<and> deb > 0 then
          SBspUv a b (Some (InsertOrCreateEdge E bpos ea eb srf)) bneg bmore
        else if dea < 0 \<and> deb < 0 then
          SBspUv a b bpos (Some (InsertOrCreateEdge E bneg ea eb srf)) bmore
        else
          (let n = Point2d_WithMagnitude E (Point2d_Normal E (Point2d_Minus b a)) 1;
               d = Point2d_Dot a n;
               t = (d - Point2d_Dot n ea) / Point2d_Dot n (Point2d_Minus eb ea);
               pi' = Point2d_Plus ea (Point2d_ScaledBy (Point2d_Minus eb ea) t)
           in if dea > 0 then
                SBspUv a b (Some (InsertOrCreateEdge E bpos ea pi' srf))
                           (Some (InsertOrCreateEdge E bneg pi' eb srf)) bmore
              else
                SBspUv a b (Some (InsertOrCreateEdge E bpos pi' eb srf))
                           (Some (InsertOrCreateEdge E bneg ea pi' srf)) bmore))"


text \<open>
  \<^verbatim>\<open>List::ClearTags\<close> and \<^verbatim>\<open>List::RemoveTagged\<close> on a list of edges, and
  \<^verbatim>\<open>SEdgeList::AddEdge\<close>, which adds an untagged edge at the end.
\<close>

definition SEdge_ClearTags :: "SEdge list \<Rightarrow> SEdge list" where
  "SEdge_ClearTags el = map (\<lambda>se. se\<lparr>se_tag := 0\<rparr>) el"

definition SEdge_RemoveTagged :: "SEdge list \<Rightarrow> SEdge list" where
  "SEdge_RemoveTagged el = filter (\<lambda>se. se_tag se = 0) el"

definition AddEdge :: "SEdge list \<Rightarrow> Vector \<Rightarrow> Vector \<Rightarrow> int \<Rightarrow> int \<Rightarrow> SEdge list" where
  "AddEdge el a b auxA auxB =
     el @ [\<lparr>se_tag = 0, se_auxA = auxA, se_auxB = auxB, se_a = a, se_b = b\<rparr>]"

text \<open>
  \<^verbatim>\<open>SBspUv::From\<close>: the edges are copied, sorted by descending length (an insertion
  sort; \<^verbatim>\<open>std::sort\<close> leaves the order of edges of equal length open) and inserted one
  by one, starting from the null tree.
\<close>

definition SBspUv_From :: "env \<Rightarrow> SEdge list \<Rightarrow> SSurface \<Rightarrow> SBspUv option" where
  "SBspUv_From E el srf =
    (let work = fold (\<lambda>se w. AddEdge w (se_a se) (se_b se) (se_auxA se) (se_auxB se)) el [];
         work = sort_key (\<lambda>e. - Vector_Magnitude E (Vector_Minus (se_a e) (se_b e))) work
     in fold (\<lambda>se bsp. Some (InsertOrCreateEdge E bsp (Vector_ProjectXy (se_a se))
                                (Vector_ProjectXy (se_b se)) srf))
          work None)"

section \<open>The curve splitter\<close>

text \<open>\<^verbatim>\<open>List::ClearTags\<close> and \<^verbatim>\<open>List::RemoveTagged\<close> on a list of intersections.\<close>

definition SInter_ClearTags :: "SInter list \<Rightarrow> SInter list" where
  "SInter_ClearTags il = map (\<lambda>si. si\<lparr>si_tag := 0\<rparr>) il"

definition SInter_RemoveTagged :: "SInter list \<Rightarrow> SInter list" where
  "SInter_RemoveTagged il = filter (\<lambda>si. si_tag si = 0) il"

text \<open>
  The body of the refinement loop of \<^verbatim>\<open>MakeCopySplitAgainst\<close> for one intersection
  \<open>si\<close> (\<^verbatim>\<open>pi\<close> in the source): it tags the intersection for removal, or moves it onto the three surfaces.
\<close>

definition RefineIntersection ::
  "env \<Rightarrow> store \<Rightarrow> SSurface_ptr option \<Rightarrow> SSurface_ptr option \<Rightarrow> SInter \<Rightarrow> SInter" where
  "RefineIntersection E st srfA srfB si =
    (if Some (si_srf si) = srfA \<or> Some (si_srf si) = srfB then si\<lparr>si_tag := 1\<rparr>
     else
       (let srf = SurfaceAt st (si_srf si);
            puv = ss_ClosestPointTo srf (si_p si) False;
            dummy = Point2d 0 0;
            c = (case ss_bsp srf of
                   Some bsp \<Rightarrow> ClassifyPoint E bsp puv dummy srf
                 | None \<Rightarrow> BSP_OUTSIDE)
        in if c = BSP_OUTSIDE \<and>
              (let d = (case ss_bsp srf of
                          Some bsp \<Rightarrow> MinimumDistanceToEdge E bsp puv srf
                        | None \<Rightarrow> VERY_POSITIVE E)
               in d > ChordTolMm E)
           then si\<lparr>si_tag := 1\<rparr>
           else
             (let puv' = PointOnSurfaces E srf (map_option (SurfaceAt st) srfA)
                           (map_option (SurfaceAt st) srfB) puv
              in si\<lparr>si_p := ss_PointAt srf puv'\<rparr>)))"

text \<open>
  The loop that turns the sorted intersections into curve points; \<open>prev\<close> is the local
  \<^verbatim>\<open>Vector prev\<close> of that block.
\<close>

fun SplitPoints :: "env \<Rightarrow> Vector \<Rightarrow> SInter list \<Rightarrow> SCurvePt list" where
  "SplitPoints E prev [] = []"
| "SplitPoints E prev (si # il) =
    (if \<not> Vector_Equals E prev (si_p si)
     then \<lparr>pt_tag = 0, pt_p = si_p si, pt_vertex = True\<rparr> # SplitPoints E (si_p si) il
     else SplitPoints E (si_p si) il)"

text \<open>
  The points that one piecewise linear segment from \<open>prev\<close> to \<open>p\<close> contributes before
  \<open>p\<close> itself. \<^verbatim>\<open>std::sort\<close> is an insertion sort on the projected parameter here; it
  leaves the order of intersections with equal parameters open, and nothing below
  depends on that order.
\<close>

definition SegmentSplitPoints ::
  "env \<Rightarrow> store \<Rightarrow> SShell_ptr option \<Rightarrow> SShell_ptr option \<Rightarrow>
     SSurface_ptr option \<Rightarrow> SSurface_ptr option \<Rightarrow> SCurvePt \<Rightarrow> SCurvePt \<Rightarrow> SCurvePt list" where
  "SegmentSplitPoints E st agnstA agnstB srfA srfB prev p =
    (let il = (case agnstA of
                 Some sh \<Rightarrow> AllPointsIntersecting E st sh (pt_p prev) (pt_p p) True False True
               | None \<Rightarrow> [])
            @ (case agnstB of
                 Some sh \<Rightarrow> AllPointsIntersecting E st sh (pt_p prev) (pt_p p) True False True
               | None \<Rightarrow> [])
     in if il \<noteq> [] then
          (let il1 = map (RefineIntersection E st srfA srfB) (SInter_ClearTags il);
               il2 = SInter_RemoveTagged il1;
               lineStart = pt_p prev;
               lineDirection = Vector_Minus (pt_p p) (pt_p prev);
               il3 = sort_key (\<lambda>a. Vector_DivProjected E (Vector_Minus (si_p a) lineStart)
                                      lineDirection) il2
           in SplitPoints E (Vector (VERY_POSITIVE E) 0 0) il3)
        else [])"

text \<open>The \<^verbatim>\<open>for(; p; p = pts.NextAfter(p))\<close> loop: what is added to \<^verbatim>\<open>ret.pts\<close>.\<close>

fun SplitLoop ::
  "env \<Rightarrow> store \<Rightarrow> SShell_ptr option \<Rightarrow> SShell_ptr option \<Rightarrow>
     SSurface_ptr option \<Rightarrow> SSurface_ptr option \<Rightarrow> SCurvePt \<Rightarrow> SCurvePt list \<Rightarrow> SCurvePt list" where
  "SplitLoop E st agnstA agnstB srfA srfB prev [] = []"
| "SplitLoop E st agnstA agnstB srfA srfB prev (p # ps) =
     SegmentSplitPoints E st agnstA agnstB srfA srfB prev p
       @ p # SplitLoop E st agnstA agnstB srfA srfB p ps"

definition MakeCopySplitAgainst ::
  "env \<Rightarrow> store \<Rightarrow> SCurve \<Rightarrow> SShell_ptr option \<Rightarrow> SShell_ptr option \<Rightarrow>
     SSurface_ptr option \<Rightarrow> SSurface_ptr option \<Rightarrow> error + SCurve" where
  "MakeCopySplitAgainst E st this agnstA agnstB srfA srfB =
    (case sc_pts this of
       [] \<Rightarrow> Inl Cannot_split_an_empty_curve
     | p # ps \<Rightarrow>
         Inr (this\<lparr>sc_pts := p # SplitLoop E st agnstA agnstB srfA srfB p ps\<rparr>))"




text \<open>The node \<open>f\<close> points to and the nodes of its \<open>more\<close> chain, in the order of the loop.\<close>

fun node_chain :: "SBspUv option \<Rightarrow> SBspUv list" where
  "node_chain None = []"
| "node_chain (Some (SBspUv fa fb fpos fneg fmore)) =
     SBspUv fa fb fpos fneg fmore # node_chain fmore"

section \<open>Choosing points\<close>

text \<open>
  Modelled from the spec: \<^verbatim>\<open>SPointList::IncrementTagFor\<close> is defined outside the
  translated file. The specification describes a point list with incidence counts that
  \<^verbatim>\<open>MakeCopyTrimAgainst\<close> tags by incidence count: the first point of the list that
  equals \<open>pt\<close> has its tag incremented, and a point that equals none is added with tag 1.
\<close>

fun IncrementTagFor :: "env \<Rightarrow> SPoint list \<Rightarrow> Vector \<Rightarrow> SPoint list" where
  "IncrementTagFor E [] pt = [\<lparr>sp_tag = 1, sp_p = pt\<rparr>]"
| "IncrementTagFor E (sp # l) pt =
    (if Vector_Equals E pt (sp_p sp) then sp\<lparr>sp_tag := sp_tag sp + 1\<rparr> # l
     else sp # IncrementTagFor E l pt)"

text \<open>\<^verbatim>\<open>List::RemoveTagged\<close> on a list of points.\<close>

definition SPoint_RemoveTagged :: "SPoint list \<Rightarrow> SPoint list" where
  "SPoint_RemoveTagged l = filter (\<lambda>sp. sp_tag sp = 0) l"

text \<open>
  The block of \<^verbatim>\<open>MakeCopyTrimAgainst\<close> that builds the list \<^verbatim>\<open>choosing\<close> from the
  edge lists \<^verbatim>\<open>orig\<close> and \<^verbatim>\<open>inter\<close> (\<open>intr\<close> here).
\<close>

definition ChoosingPoints :: "env \<Rightarrow> SEdge list \<Rightarrow> SEdge list \<Rightarrow> SPoint list" where
  "ChoosingPoints E orig intr =
    (let choosing = [];
         choosing = fold (\<lambda>se ch. IncrementTagFor E (IncrementTagFor E ch (se_a se)) (se_b se))
                      orig choosing;
         choosing = fold (\<lambda>se ch. IncrementTagFor E (IncrementTagFor E ch (se_a se)) (se_b se))
                      intr choosing;
         choosing = map (\<lambda>sp. if sp_tag sp = 2 then sp\<lparr>sp_tag := 1\<rparr> else sp\<lparr>sp_tag := 0\<rparr>)
                      choosing
     in SPoint_RemoveTagged choosing)"






section \<open>Handles and the orchestrators\<close>

text \<open>
  Modelled from the spec: the container \<^verbatim>\<open>IdList\<close> is defined outside the translated
  file. The specification has handles as opaque integers indexing an arena and the
  orchestrator allocating ids and recording new handles: \<^verbatim>\<open>AddAndAssignId\<close> gives the
  element a handle one above the largest handle of the list, adds it and returns the
  handle; \<^verbatim>\<open>FindById\<close> returns a pointer to the element with a handle (here its
  position in the list) and asserts that there is one.
\<close>

definition MaximumId :: "nat list \<Rightarrow> nat" where
  "MaximumId hs = fold max hs 0"

definition SCurve_AddAndAssignId :: "SCurve list \<Rightarrow> SCurve \<Rightarrow> hSCurve \<times> SCurve list" where
  "SCurve_AddAndAssignId l t =
    (let hn = MaximumId (map sc_h l) + 1 in (hn, l @ [t\<lparr>sc_h := hn\<rparr>]))"

definition SSurface_AddAndAssignId ::
  "SSurface list \<Rightarrow> SSurface \<Rightarrow> hSSurface \<times> SSurface list" where
  "SSurface_AddAndAssignId l t =
    (let hn = MaximumId (map ss_h l) + 1 in (hn, l @ [t\<lparr>ss_h := hn\<rparr>]))"

fun index_of :: "nat list \<Rightarrow> nat \<Rightarrow> nat option" where
  "index_of [] hv = None"
| "index_of (x # xs) hv = (if x = hv then Some 0 else map_option Suc (index_of xs hv))"

definition SCurve_FindById :: "SCurve list \<Rightarrow> hSCurve \<Rightarrow> error + nat" where
  "SCurve_FindById l hv =
    (case index_of (map sc_h l) hv of None \<Rightarrow> Inl Cannot_find_handle | Some i \<Rightarrow> Inr i)"

definition SSurface_FindById :: "SSurface list \<Rightarrow> hSSurface \<Rightarrow> error + nat" where
  "SSurface_FindById l hv =
    (case index_of (map ss_h l) hv of None \<Rightarrow> Inl Cannot_find_handle | Some i \<Rightarrow> Inr i)"

text \<open>
  Modelled from the spec: \<^verbatim>\<open>SCurve::GetSurfaceA\<close> and \<^verbatim>\<open>GetSurfaceB\<close> are defined
  outside the translated file; they resolve which operand shell owns the bounding
  surface. A curve that came from A bounds two surfaces of A, one from B two surfaces of
  B, and an intersection curve has \<open>surfA\<close> in A and \<open>surfB\<close> in B (as
  \<^verbatim>\<open>MakeCopyTrimAgainst\<close> reads them).
\<close>

definition GetSurfaceA :: "store \<Rightarrow> SCurve \<Rightarrow> SShell_ptr \<Rightarrow> SShell_ptr \<Rightarrow> error + SSurface_ptr" where
  "GetSurfaceA st sc a b =
    (let sh = (if sc_source sc = Source_B then b else a) in
     case SSurface_FindById (surface (st sh)) (sc_surfA sc) of
       Inl e \<Rightarrow> Inl e
     | Inr i \<Rightarrow> Inr (sh, i))"

definition GetSurfaceB :: "store \<Rightarrow> SCurve \<Rightarrow> SShell_ptr \<Rightarrow> SShell_ptr \<Rightarrow> error + SSurface_ptr" where
  "GetSurfaceB st sc a b =
    (let sh = (if sc_source sc = Source_A then a else b) in
     case SSurface_FindById (surface (st sh)) (sc_surfB sc) of
       Inl e \<Rightarrow> Inl e
     | Inr i \<Rightarrow> Inr (sh, i))"

text \<open>
  A loop whose body may assert: the body is run on each element in turn, from the state
  the previous one left, and the first assertion that fires ends the loop. The loops
  over the curves or surfaces of a shell run over the positions of the list as it is
  when the loop starts; no call of this file appends to a list while it is being
  traversed as long as the result shell is neither operand.
\<close>

fun foldE :: "('a \<Rightarrow> 's \<Rightarrow> error + 's) \<Rightarrow> 'a list \<Rightarrow> 's \<Rightarrow> error + 's" where
  "foldE f [] s = Inr s"
| "foldE f (x # xs) s = (case f x s of Inl e \<Rightarrow> Inl e | Inr s' \<Rightarrow> foldE f xs s')"

fun mapE :: "('a \<Rightarrow> error + 'b) \<Rightarrow> 'a list \<Rightarrow> error + 'b list" where
  "mapE f [] = Inr []"
| "mapE f (x # xs) =
    (case f x of
       Inl e \<Rightarrow> Inl e
     | Inr y \<Rightarrow> (case mapE f xs of Inl e \<Rightarrow> Inl e | Inr ys \<Rightarrow> Inr (y # ys)))"

definition set_curves :: "store \<Rightarrow> SShell_ptr \<Rightarrow> SCurve list \<Rightarrow> store" where
  "set_curves st sh l = st(sh := (st sh)\<lparr>curve := l\<rparr>)"

definition set_surfaces :: "store \<Rightarrow> SShell_ptr \<Rightarrow> SSurface list \<Rightarrow> store" where
  "set_surfaces st sh l = st(sh := (st sh)\<lparr>surface := l\<rparr>)"

definition CleanupAfterBoolean :: "store \<Rightarrow> SShell_ptr \<Rightarrow> store" where
  "CleanupAfterBoolean st this =
     set_surfaces st this (map (\<lambda>ss. ss\<lparr>ss_edges := []\<rparr>) (surface (st this)))"

text \<open>The body of the loop of \<^verbatim>\<open>RewriteSurfaceHandlesForCurves\<close> for the curve at \<open>i\<close>.\<close>

definition RewriteSurfaceHandles_step ::
  "SShell_ptr \<Rightarrow> SShell_ptr \<Rightarrow> SShell_ptr \<Rightarrow> nat \<Rightarrow> store \<Rightarrow> error + store" where
  "RewriteSurfaceHandles_step this a b i st =
    (let sc = curve (st this) ! i in
     case GetSurfaceA st sc a b of
       Inl e \<Rightarrow> Inl e
     | Inr pa \<Rightarrow>
        (let sc1 = sc\<lparr>sc_surfA := ss_newH (SurfaceAt st pa)\<rparr> in
         case GetSurfaceB st sc1 a b of
           Inl e \<Rightarrow> Inl e
         | Inr pb \<Rightarrow>
             Inr (set_curves st this
                    ((curve (st this))[i := sc1\<lparr>sc_surfB := ss_newH (SurfaceAt st pb)\<rparr>]))))"

definition RewriteSurfaceHandlesForCurves ::
  "SShell_ptr \<Rightarrow> SShell_ptr \<Rightarrow> SShell_ptr \<Rightarrow> store \<Rightarrow> error + store" where
  "RewriteSurfaceHandlesForCurves this a b st =
     foldE (RewriteSurfaceHandles_step this a b) [0..<length (curve (st this))] st"

text \<open>
  The pair of statements that adds a copy to the list of \<open>into\<close> under a fresh handle and
  notes that handle in the \<open>newH\<close> slot of the element at position \<open>i\<close> of its owner.
\<close>

definition AddCurveAndNoteNewH ::
  "SShell_ptr \<Rightarrow> SShell_ptr \<Rightarrow> nat \<Rightarrow> SCurve \<Rightarrow> store \<Rightarrow> store" where
  "AddCurveAndNoteNewH into owner i scn st =
    (let (hsc, l) = SCurve_AddAndAssignId (curve (st into)) scn;
         st = set_curves st into l
     in set_curves st owner ((curve (st owner))[i := (curve (st owner) ! i)\<lparr>sc_newH := hsc\<rparr>]))"

definition AddSurfaceAndNoteNewH ::
  "SShell_ptr \<Rightarrow> SShell_ptr \<Rightarrow> nat \<Rightarrow> SSurface \<Rightarrow> store \<Rightarrow> store" where
  "AddSurfaceAndNoteNewH into owner i ssn st =
    (let (hss, l) = SSurface_AddAndAssignId (surface (st into)) ssn;
         st = set_surfaces st into l
     in set_surfaces st owner
          ((surface (st owner))[i := (surface (st owner) ! i)\<lparr>ss_newH := hss\<rparr>]))"

text \<open>
  The two loops of \<^verbatim>\<open>MakeFromAssemblyOf\<close> for one operand \<open>ab\<close>: the body of the curve
  loop for the curve at \<open>i\<close>, and the body of the surface loop for the surface at \<open>i\<close>.
\<close>

definition AssemblyCurve_step ::
  "env \<Rightarrow> SShell_ptr \<Rightarrow> SShell_ptr \<Rightarrow> SCurve_Source \<Rightarrow> nat \<Rightarrow> store \<Rightarrow> store" where
  "AssemblyCurve_step E this ab src i st =
    (let c = curve (st ab) ! i;
         cn = SCurve_FromTransformationOf E c (Vector 0 0 0) Quaternion_IDENTITY 1;
         cn = cn\<lparr>sc_source := src\<rparr>
     in AddCurveAndNoteNewH this ab i cn st)"

definition AssemblySurface_step ::
  "env \<Rightarrow> SShell_ptr \<Rightarrow> SShell_ptr \<Rightarrow> nat \<Rightarrow> store \<Rightarrow> error + store" where
  "AssemblySurface_step E this ab i st =
    (let s = surface (st ab) ! i;
         sn = SSurface_FromTransformationOf E s (Vector 0 0 0) Quaternion_IDENTITY 1 True
     in case mapE (\<lambda>stb. case SCurve_FindById (curve (st ab)) (stb_curve stb) of
                            Inl e \<Rightarrow> Inl e
                          | Inr j \<Rightarrow> Inr (stb\<lparr>stb_curve := sc_newH (curve (st ab) ! j)\<rparr>))
                  (ss_trim sn) of
          Inl e \<Rightarrow> Inl e
        | Inr trims \<Rightarrow> Inr (AddSurfaceAndNoteNewH this ab i (sn\<lparr>ss_trim := trims\<rparr>) st))"

definition MakeFromAssemblyOf ::
  "env \<Rightarrow> SShell_ptr \<Rightarrow> SShell_ptr \<Rightarrow> SShell_ptr \<Rightarrow> store \<Rightarrow> error + store" where
  "MakeFromAssemblyOf E this a b st =
    (let st = st(this := (st this)\<lparr>booleanFailed := False\<rparr>);
         st = fold (AssemblyCurve_step E this a Source_A) [0..<length (curve (st a))] st;
         st = fold (AssemblyCurve_step E this b Source_B) [0..<length (curve (st b))] st
     in case foldE (AssemblySurface_step E this a) [0..<length (surface (st a))] st of
          Inl e \<Rightarrow> Inl e
        | Inr st \<Rightarrow>
           (case foldE (AssemblySurface_step E this b) [0..<length (surface (st b))] st of
              Inl e \<Rightarrow> Inl e
            | Inr st \<Rightarrow> RewriteSurfaceHandlesForCurves this a b st))"

section \<open>The classifying BSPs, the split curves and the intersection curves\<close>

text \<open>\<^verbatim>\<open>SSurface::MakeClassifyingBsp\<close> for the surface at position \<open>i\<close> of \<open>shell\<close>.\<close>

definition MakeClassifyingBsp ::
  "env \<Rightarrow> SShell_ptr \<Rightarrow> SShell_ptr option \<Rightarrow> nat \<Rightarrow> store \<Rightarrow> store" where
  "MakeClassifyingBsp E shell useCurvesFrom i st =
    (let this = surface (st shell) ! i;
         el = MakeEdgesInto E st this shell UV useCurvesFrom;
         this = this\<lparr>ss_bsp := SBspUv_From E el this\<rparr>;
         this = this\<lparr>ss_edges := []\<rparr>;
         this = this\<lparr>ss_edges := MakeEdgesInto E st this shell XYZ useCurvesFrom\<rparr>
     in set_surfaces st shell ((surface (st shell))[i := this]))"

definition MakeClassifyingBsps :: "env \<Rightarrow> SShell_ptr \<Rightarrow> SShell_ptr option \<Rightarrow> store \<Rightarrow> store" where
  "MakeClassifyingBsps E this useCurvesFrom st =
     fold (MakeClassifyingBsp E this useCurvesFrom) [0..<length (surface (st this))] st"

text \<open>
  The body of the loop of \<^verbatim>\<open>CopyCurvesSplitAgainst\<close> for the curve at \<open>i\<close>; \<open>this\<close> is
  the shell whose curves are copied.
\<close>

definition CopyCurvesSplitAgainst_step ::
  "env \<Rightarrow> bool \<Rightarrow> SShell_ptr \<Rightarrow> SShell_ptr \<Rightarrow> SShell_ptr \<Rightarrow> nat \<Rightarrow> store \<Rightarrow> error + store" where
  "CopyCurvesSplitAgainst_step E opA this agnst into i st =
    (let sc = curve (st this) ! i in
     case SSurface_FindById (surface (st this)) (sc_surfA sc) of
       Inl e \<Rightarrow> Inl e
     | Inr ia \<Rightarrow>
        (case SSurface_FindById (surface (st this)) (sc_surfB sc) of
           Inl e \<Rightarrow> Inl e
         | Inr ib \<Rightarrow>
            (case MakeCopySplitAgainst E st sc (Some agnst) None
                    (Some (this, ia)) (Some (this, ib)) of
               Inl e \<Rightarrow> Inl e
             | Inr scn \<Rightarrow>
                 Inr (AddCurveAndNoteNewH into this i
                        (scn\<lparr>sc_source := (if opA then Source_A else Source_B)\<rparr>) st))))"

definition CopyCurvesSplitAgainst ::
  "env \<Rightarrow> bool \<Rightarrow> SShell_ptr \<Rightarrow> SShell_ptr \<Rightarrow> SShell_ptr \<Rightarrow> store \<Rightarrow> error + store" where
  "CopyCurvesSplitAgainst E opA this agnst into st =
     foldE (CopyCurvesSplitAgainst_step E opA this agnst into)
       [0..<length (curve (st this))] st"

text \<open>
  Modelled from the spec: \<^verbatim>\<open>SSurface::IntersectAgainst\<close> is an external collaborator
  that appends the intersection curves of two surfaces to the curve list of \<open>into\<close>. The
  curves it finds are a parameter of the embedding; each is added under a fresh handle.
\<close>

definition AddCurves :: "SShell_ptr \<Rightarrow> SCurve list \<Rightarrow> store \<Rightarrow> store" where
  "AddCurves into cs st =
     fold (\<lambda>sc st. set_curves st into (snd (SCurve_AddAndAssignId (curve (st into)) sc))) cs st"

definition MakeIntersectionCurvesAgainst ::
  "env \<Rightarrow> SShell_ptr \<Rightarrow> SShell_ptr \<Rightarrow> SShell_ptr \<Rightarrow> store \<Rightarrow> store" where
  "MakeIntersectionCurvesAgainst E this agnst into st =
     fold (\<lambda>ia st.
        fold (\<lambda>ib st. AddCurves into (IntersectAgainst E st (this, ia) (agnst, ib) this agnst into) st)
          [0..<length (surface (st agnst))] st)
       [0..<length (surface (st this))] st"

text \<open>
  The body of the loop of \<^verbatim>\<open>MakeFromBoolean\<close> that removes the short segments of the
  curve at \<open>i\<close> of the result shell.
\<close>

definition RemoveShortSegments_step ::
  "env \<Rightarrow> SShell_ptr \<Rightarrow> SShell_ptr \<Rightarrow> SShell_ptr \<Rightarrow> nat \<Rightarrow> store \<Rightarrow> error + store" where
  "RemoveShortSegments_step E this a b i st =
    (let sc = curve (st this) ! i in
     case GetSurfaceA st sc a b of
       Inl e \<Rightarrow> Inl e
     | Inr pa \<Rightarrow>
        (case GetSurfaceB st sc a b of
           Inl e \<Rightarrow> Inl e
         | Inr pb \<Rightarrow>
             Inr (set_curves st this
                    ((curve (st this))[i := sc\<lparr>sc_pts :=
                        RemoveShortSegments E sc (SurfaceAt st pa) (SurfaceAt st pb)\<rparr>]))))"


section \<open>Trimming a surface\<close>

text \<open>
  Modelled from the spec: \<^verbatim>\<open>SPointList::ContainsPoint\<close> is defined outside the
  translated file; the avoid set of \<^verbatim>\<open>FindChainAvoiding\<close> contains a point when one of
  its points equals it.
\<close>

definition ContainsPoint :: "env \<Rightarrow> SPoint list \<Rightarrow> Vector \<Rightarrow> bool" where
  "ContainsPoint E l pt = list_ex (\<lambda>sp. Vector_Equals E pt (sp_p sp)) l"

text \<open>
  \<^verbatim>\<open>FindChainAvoiding\<close>. One pass of the \<^verbatim>\<open>for\<close> loop over \<open>src\<close> threads the chain
  \<open>dest\<close>, its ends \<open>s\<close> and \<open>f\<close>, the two flags and \<open>added\<close>; the \<^verbatim>\<open>do\<close> loop repeats
  the pass while it added an edge. The chain is never empty: it starts with one edge.
\<close>

type_synonym chain_state = "SEdge list \<times> Vector \<times> Vector \<times> bool \<times> bool \<times> bool"

fun ChainPass ::
  "env \<Rightarrow> SPoint list \<Rightarrow> SEdge list \<Rightarrow> chain_state \<Rightarrow> SEdge list \<times> chain_state" where
  "ChainPass E avoid [] cs = ([], cs)"
| "ChainPass E avoid (se # src) (dest, s, f, startOkay, finishOkay, added) =
    (if se_tag se \<noteq> 0 then
       (let (src', cs') = ChainPass E avoid src (dest, s, f, startOkay, finishOkay, added)
        in (se # src', cs'))
     else if startOkay \<and> Vector_Equals E s (se_b se) then
       (let (src', cs') = ChainPass E avoid src
              (se # dest, se_a se, f, \<not> ContainsPoint E avoid (se_a se), finishOkay, True)
        in (se\<lparr>se_tag := 1\<rparr> # src', cs'))
     else if finishOkay \<and> Vector_Equals E f (se_a se) then
       (let (src', cs') = ChainPass E avoid src
              (dest @ [se], s, se_b se, startOkay, \<not> ContainsPoint E avoid (se_b se), True)
        in (se\<lparr>se_tag := 1\<rparr> # src', cs'))
     else
       (let (src', cs') = ChainPass E avoid src (dest, s, f, startOkay, finishOkay, added)
        in (se # src', cs')))"

text \<open>The number of untagged edges: what the loops over an edge list use up.\<close>

definition untagged :: "SEdge list \<Rightarrow> nat" where
  "untagged el = length (filter (\<lambda>se. se_tag se = 0) el)"

lemma ChainPass_untagged:
  "ChainPass E avoid src (dest, s, f, so, fo, added) = (src', (dest', s', f', so', fo', added'))
   \<Longrightarrow> untagged src' \<le> untagged src \<and> (added' \<and> \<not> added \<longrightarrow> untagged src' < untagged src)
       \<and> (added \<longrightarrow> added')"
proof (induction src arbitrary: dest s f so fo added src' dest' s' f' so' fo' added')
  case Nil
  then show ?case by simp
next
  case (Cons se src)
  show ?case
  proof (cases "se_tag se \<noteq> 0")
    case True
    with Cons.prems obtain r where
      r: "ChainPass E avoid src (dest, s, f, so, fo, added) = (r, (dest', s', f', so', fo', added'))"
      and s': "src' = se # r"
      by (auto split: prod.splits)
    from Cons.IH [OF r] s' True show ?thesis by (simp add: untagged_def)
  next
    case untag: False
    show ?thesis
    proof (cases "so \<and> Vector_Equals E s (se_b se)")
      case True
      with untag Cons.prems obtain r where
        r: "ChainPass E avoid src (se # dest, se_a se, f, \<not> ContainsPoint E avoid (se_a se), fo, True)
              = (r, (dest', s', f', so', fo', added'))"
        and s': "src' = se\<lparr>se_tag := 1\<rparr> # r"
        by (auto split: prod.splits)
      from Cons.IH [OF r] s' untag show ?thesis by (auto simp: untagged_def)
    next
      case nostart: False
      show ?thesis
      proof (cases "fo \<and> Vector_Equals E f (se_a se)")
        case True
        with untag nostart Cons.prems obtain r where
          r: "ChainPass E avoid src (dest @ [se], s, se_b se, so, \<not> ContainsPoint E avoid (se_b se), True)
                = (r, (dest', s', f', so', fo', added'))"
          and s': "src' = se\<lparr>se_tag := 1\<rparr> # r"
          by (auto split: prod.splits)
        from Cons.IH [OF r] s' untag show ?thesis by (auto simp: untagged_def)
      next
        case False
        with untag nostart Cons.prems obtain r where
          r: "ChainPass E avoid src (dest, s, f, so, fo, added) = (r, (dest', s', f', so', fo', added'))"
          and s': "src' = se # r"
          by (auto split: prod.splits)
        from Cons.IH [OF r] s' untag show ?thesis by (auto simp: untagged_def)
      qed
    qed
  qed
qed

function ChainLoop :: "env \<Rightarrow> SPoint list \<Rightarrow> SEdge list \<Rightarrow> SEdge list \<Rightarrow> SEdge list \<times> SEdge list" where
  "ChainLoop E avoid src dest =
    (let s = se_a (hd dest);
         f = se_b (last dest);
         startOkay = \<not> ContainsPoint E avoid s;
         finishOkay = \<not> ContainsPoint E avoid f
     in case ChainPass E avoid src (dest, s, f, startOkay, finishOkay, False) of
          (src', (dest', s', f', startOkay', finishOkay', added)) \<Rightarrow>
            if added then ChainLoop E avoid src' dest' else (src', dest'))"
  by pat_completeness auto
termination
proof (relation "measure (\<lambda>(E, avoid, src, dest). untagged src)")
  show "wf (measure (\<lambda>(E, avoid, src, dest). untagged src))" by simp
next
  fix E avoid src dest s f startOkay finishOkay x src' y dest' z s' w f' v so' u fo' added
  assume "(src', y) = ChainPass E avoid src (dest, s, f, startOkay, finishOkay, False)"
    and "(dest', z) = y" "(s', w) = z" "(f', v) = w" "(so', u) = v" "(fo', added) = u" "added"
  then have "ChainPass E avoid src (dest, s, f, startOkay, finishOkay, False)
               = (src', (dest', s', f', so', fo', True))"
    by simp
  from ChainPass_untagged [OF this]
  show "((E, avoid, src', dest'), (E, avoid, src, dest))
          \<in> measure (\<lambda>(E, avoid, src, dest). untagged src)"
    by simp
qed


definition FindChainAvoiding ::
  "env \<Rightarrow> SEdge list \<Rightarrow> SEdge list \<Rightarrow> SPoint list \<Rightarrow> error + SEdge list \<times> SEdge list" where
  "FindChainAvoiding E src dest avoid =
    (case src of
       [] \<Rightarrow> Inl Need_at_least_one_edge
     | first # rest \<Rightarrow>
        (let dest = dest @ [first];
             src = SEdge_ClearTags (first # rest);
             src = (hd src)\<lparr>se_tag := 1\<rparr> # tl src;
             (src, dest) = ChainLoop E avoid src dest
         in Inr (SEdge_RemoveTagged src, dest)))"

lemma ChainPass_length:
  "length (fst (ChainPass E avoid src cs)) = length src"
  by (induction E avoid src cs rule: ChainPass.induct) (auto split: prod.splits)

lemma ChainPass_tagged_stay:
  "ChainPass E avoid src cs = (src', cs') \<Longrightarrow> src \<noteq> [] \<Longrightarrow> se_tag (hd src) \<noteq> 0
   \<Longrightarrow> src' \<noteq> [] \<and> se_tag (hd src') \<noteq> 0"
  by (cases src; cases cs) (auto split: prod.splits)

lemma ChainLoop_first_tagged:
  "ChainLoop E avoid src dest = (src', dest') \<Longrightarrow> src \<noteq> [] \<Longrightarrow> se_tag (hd src) \<noteq> 0
   \<Longrightarrow> length src' = length src \<and> src' \<noteq> [] \<and> se_tag (hd src') \<noteq> 0"
proof (induction E avoid src dest arbitrary: src' dest' rule: ChainLoop.induct)
  case (1 E avoid src dest)
  let ?cs = "(dest, se_a (hd dest), se_b (last dest),
              \<not> ContainsPoint E avoid (se_a (hd dest)),
              \<not> ContainsPoint E avoid (se_b (last dest)), False)"
  obtain r d s f so fo added where
    p: "ChainPass E avoid src ?cs = (r, (d, s, f, so, fo, added))"
    by (metis prod_cases3)
  have len: "length r = length src"
    using ChainPass_length [of E avoid src ?cs] p by simp
  have tg: "r \<noteq> [] \<and> se_tag (hd r) \<noteq> 0"
    using ChainPass_tagged_stay [OF p "1.prems"(2) "1.prems"(3)] .
  show ?case
  proof (cases added)
    case True
    with "1.prems"(1) p have "ChainLoop E avoid r d = (src', dest')"
      by (simp add: Let_def)
    from "1.IH" [OF refl refl refl refl p [symmetric] refl refl refl refl refl True this] tg len
    show ?thesis by simp
  next
    case False
    with "1.prems"(1) p have "src' = r" by (simp add: Let_def)
    with tg len show ?thesis by simp
  qed
qed

lemma FindChainAvoiding_shorter:
  "FindChainAvoiding E src dest avoid = Inr (src', chain) \<Longrightarrow> length src' < length src"
proof -
  assume a: "FindChainAvoiding E src dest avoid = Inr (src', chain)"
  then obtain first rest where src: "src = first # rest"
    by (cases src) (auto simp: FindChainAvoiding_def)
  let ?s0 = "(hd (SEdge_ClearTags (first # rest)))\<lparr>se_tag := 1\<rparr> # tl (SEdge_ClearTags (first # rest))"
  obtain r d where l: "ChainLoop E avoid ?s0 (dest @ [first]) = (r, d)"
    by (metis surj_pair)
  have "length r = length ?s0 \<and> r \<noteq> [] \<and> se_tag (hd r) \<noteq> 0"
    by (rule ChainLoop_first_tagged [OF l]) simp_all
  then have "length (SEdge_RemoveTagged r) < length src"
    using length_filter_le [of "\<lambda>se. se_tag se = 0" "tl r"]
    by (cases r) (auto simp: SEdge_RemoveTagged_def src SEdge_ClearTags_def less_Suc_eq_le)
  moreover from a l have "src' = SEdge_RemoveTagged r"
    by (simp add: FindChainAvoiding_def src Let_def)
  ultimately show ?thesis by simp
qed


text \<open>
  \<^verbatim>\<open>TrimFromEdgeList\<close>: one pass of the merging \<^verbatim>\<open>for\<close> loop, the \<^verbatim>\<open>do\<close> loop
  around it, and the outer loop that starts a trim from the first untagged edge. The
  handle in \<open>auxA\<close> is below \<open>2\<^sup>3\<^sup>1\<close>, so the conversions between \<^verbatim>\<open>int\<close> and the
  handle's \<^verbatim>\<open>uint32_t\<close> keep it.
\<close>

fun MergePass :: "env \<Rightarrow> SEdge list \<Rightarrow> STrimBy \<Rightarrow> bool \<Rightarrow> SEdge list \<times> STrimBy \<times> bool" where
  "MergePass E [] stb merged = ([], stb, merged)"
| "MergePass E (se # el) stb merged =
    (if se_tag se \<noteq> 0 then
       (let (el', r) = MergePass E el stb merged in (se # el', r))
     else if se_auxA se \<noteq> int_of_uint32 (stb_curve stb) then
       (let (el', r) = MergePass E el stb merged in (se # el', r))
     else if (se_auxB se \<noteq> 0 \<and> \<not> stb_backwards stb) \<or> (se_auxB se = 0 \<and> stb_backwards stb) then
       (let (el', r) = MergePass E el stb merged in (se # el', r))
     else if Vector_Equals E (se_a se) (stb_finish stb) then
       (let (el', r) = MergePass E el (stb\<lparr>stb_finish := se_b se\<rparr>) True
        in (se\<lparr>se_tag := 1\<rparr> # el', r))
     else if Vector_Equals E (se_b se) (stb_start stb) then
       (let (el', r) = MergePass E el (stb\<lparr>stb_start := se_a se\<rparr>) True
        in (se\<lparr>se_tag := 1\<rparr> # el', r))
     else
       (let (el', r) = MergePass E el stb merged in (se # el', r)))"

lemma MergePass_untagged:
  "MergePass E el stb merged = (el', stb', merged')
   \<Longrightarrow> untagged el' \<le> untagged el \<and> (merged' \<and> \<not> merged \<longrightarrow> untagged el' < untagged el)
       \<and> (merged \<longrightarrow> merged')"
proof (induction E el stb merged arbitrary: el' stb' merged' rule: MergePass.induct)
  case (1 E stb merged)
  then show ?case by simp
next
  case (2 E se el stb merged)
  show ?case
    using "2.prems" "2.IH"
    by (auto simp: untagged_def split: if_splits prod.splits)
qed

function MergeLoop :: "env \<Rightarrow> SEdge list \<Rightarrow> STrimBy \<Rightarrow> SEdge list \<times> STrimBy" where
  "MergeLoop E el stb =
    (case MergePass E el stb False of
       (el', stb', merged) \<Rightarrow> if merged then MergeLoop E el' stb' else (el', stb'))"
  by pat_completeness auto
termination
proof (relation "measure (\<lambda>(E, el, stb). untagged el)")
  show "wf (measure (\<lambda>(E, el, stb). untagged el))" by simp
next
  fix E el stb x el' y stb' merged
  assume "(el', y) = MergePass E el stb False" and "(stb', merged) = y" and "merged"
  then have "MergePass E el stb False = (el', stb', True)" by simp
  from MergePass_untagged [OF this]
  show "((E, el', stb'), (E, el, stb)) \<in> measure (\<lambda>(E, el, stb). untagged el)"
    by simp
qed

lemma MergeLoop_untagged:
  "MergeLoop E el stb = (el', stb') \<Longrightarrow> untagged el' \<le> untagged el"
proof (induction E el stb arbitrary: el' stb' rule: MergeLoop.induct)
  case (1 E el stb)
  obtain r t m where p: "MergePass E el stb False = (r, t, m)"
    by (metis prod_cases3)
  from MergePass_untagged [OF p] have le: "untagged r \<le> untagged el" by simp
  show ?case
  proof (cases m)
    case True
    with "1.prems" p have "MergeLoop E r t = (el', stb')" by simp
    from "1.IH" [OF p [symmetric] refl True this] le show ?thesis by simp
  next
    case False
    with "1.prems" p le show ?thesis by simp
  qed
qed

fun find_untagged :: "SEdge list \<Rightarrow> nat option" where
  "find_untagged [] = None"
| "find_untagged (se # el) =
     (if se_tag se \<noteq> 0 then map_option Suc (find_untagged el) else Some 0)"

lemma find_untagged_Some:
  "find_untagged el = Some i \<Longrightarrow> i < length el \<and> se_tag (el ! i) = 0"
  by (induction el arbitrary: i) (auto split: if_splits)

lemma untagged_tag_one:
  "i < length el \<Longrightarrow> se_tag (el ! i) = 0 \<Longrightarrow>
   untagged (el[i := (el ! i)\<lparr>se_tag := 1\<rparr>]) < untagged el"
proof (induction el arbitrary: i)
  case Nil
  then show ?case by simp
next
  case (Cons se el)
  then show ?case
    by (cases i) (auto simp: untagged_def)
qed

function TrimLoop ::
  "env \<Rightarrow> SSurface \<Rightarrow> bool \<Rightarrow> SEdge list \<Rightarrow> STrimBy list \<Rightarrow> SEdge list \<times> STrimBy list" where
  "TrimLoop E this asUv el trims =
    (case find_untagged el of
       None \<Rightarrow> (el, trims)
     | Some i \<Rightarrow>
        (let se = el ! i;
             el1 = el[i := se\<lparr>se_tag := 1\<rparr>];
             stb = \<lparr>stb_curve = uint32_of_int (se_auxA se), stb_backwards = (se_auxB se \<noteq> 0),
                    stb_start = se_a se, stb_finish = se_b se\<rparr>
         in case MergeLoop E el1 stb of
              (el2, stb) \<Rightarrow>
                (let stb = (if asUv then
                              stb\<lparr>stb_start :=
                                    ss_PointAt this (Point2d (vx (stb_start stb)) (vy (stb_start stb))),
                                  stb_finish :=
                                    ss_PointAt this (Point2d (vx (stb_finish stb)) (vy (stb_finish stb)))\<rparr>
                            else stb)
                 in TrimLoop E this asUv el2 (trims @ [stb]))))"
  by pat_completeness auto
termination
proof (relation "measure (\<lambda>(E, this, asUv, el, trims). untagged el)")
  show "wf (measure (\<lambda>(E, this, asUv, el, trims). untagged el))" by simp
next
  fix E :: env and this :: SSurface and asUv :: bool and el :: "SEdge list"
    and trims :: "STrimBy list" and i se el1 stb x el2 stb' stb''
  assume f: "find_untagged el = Some i" and se: "se = el ! i"
    and el1: "el1 = el[i := se\<lparr>se_tag := 1\<rparr>]"
    and m: "(el2, stb') = MergeLoop E el1 stb"
  from find_untagged_Some [OF f] have "i < length el" "se_tag (el ! i) = 0" by simp_all
  from untagged_tag_one [OF this] have "untagged el1 < untagged el" by (simp add: el1 se)
  moreover from MergeLoop_untagged [OF m [symmetric]] have "untagged el2 \<le> untagged el1" .
  ultimately show "((E, this, asUv, el2, trims @ [stb'']), (E, this, asUv, el, trims))
      \<in> measure (\<lambda>(E, this, asUv, el, trims). untagged el)"
    by simp
qed

definition TrimFromEdgeList ::
  "env \<Rightarrow> SSurface \<Rightarrow> SEdge list \<Rightarrow> bool \<Rightarrow> SSurface \<times> SEdge list" where
  "TrimFromEdgeList E this el asUv =
    (case TrimLoop E this asUv (SEdge_ClearTags el) (ss_trim this) of
       (el', trims) \<Rightarrow> (this\<lparr>ss_trim := trims\<rparr>, el'))"


definition TagByClassifiedEdge :: "SBspUv_Class \<Rightarrow> SShell_Class \<times> SShell_Class" where
  "TagByClassifiedEdge bspclass =
    (case bspclass of
       BSP_INSIDE \<Rightarrow> (INSIDE, INSIDE)
     | BSP_OUTSIDE \<Rightarrow> (OUTSIDE, OUTSIDE)
     | EDGE_PARALLEL \<Rightarrow> (INSIDE, OUTSIDE)
     | EDGE_ANTIPARALLEL \<Rightarrow> (OUTSIDE, INSIDE)
     | EDGE_OTHER \<Rightarrow> (OUTSIDE, OUTSIDE))"

text \<open>
  \<^verbatim>\<open>EdgeNormalsWithinSurface\<close> returns the midpoint, the inner and outer normals and the
  surface normal; its parameter \<open>auxA\<close> is a \<^verbatim>\<open>uint32_t\<close>, to which the callers convert
  the \<open>auxA\<close> of an edge. A division by a zero \<^verbatim>\<open>MagSquared\<close> is HOL's division here.
\<close>

definition EdgeNormalsWithinSurface ::
  "env \<Rightarrow> store \<Rightarrow> SSurface \<Rightarrow> Point2d \<Rightarrow> Point2d \<Rightarrow> nat \<Rightarrow> SShell_ptr \<Rightarrow> SShell_ptr \<Rightarrow> SShell_ptr
     \<Rightarrow> error + Vector \<times> Vector \<times> Vector \<times> Vector" where
  "EdgeNormalsWithinSurface E st this auv buv auxA shell sha shb =
    (let muv = Point2d_ScaledBy (Point2d_Plus auv buv) 0.5;
         pt = ss_PointAt this muv
     in case SCurve_FindById (curve (st shell)) auxA of
          Inl e \<Rightarrow> Inl e
        | Inr j \<Rightarrow>
           (let sc = curve (st shell) ! j in
            case (if sc_isExact sc \<and> bz_deg (sc_exact sc) \<noteq> 1 then
                    (let t = bz_ClosestPointTo (sc_exact sc) pt False;
                         pt = bz_PointAt (sc_exact sc) t
                     in Inr (pt, ss_ClosestPointTo this pt True))
                  else if \<not> sc_isExact sc then
                    (case GetSurfaceA st sc sha shb of
                       Inl e \<Rightarrow> Inl e
                     | Inr trimmedA \<Rightarrow>
                        (case GetSurfaceB st sc sha shb of
                           Inl e \<Rightarrow> Inl e
                         | Inr trimmedB \<Rightarrow>
                            (let pt = ClosestPointOnThisAndSurface E (SurfaceAt st trimmedA)
                                        (SurfaceAt st trimmedB) pt
                             in Inr (pt, ss_ClosestPointTo this pt True))))
                  else Inr (pt, muv)) of
              Inl e \<Rightarrow> Inl e
            | Inr (pt, muv) \<Rightarrow>
               (let surfn = ss_NormalAt this (px muv) (py muv);
                    ab = Vector_Minus (ss_PointAt this auv) (ss_PointAt this buv);
                    enxyz = Vector_WithMagnitude E (Vector_Cross ab surfn) (ChordTolMm E);
                    (tu, tv) = ss_TangentsAt this (px muv) (py muv);
                    enuv = Point2d (Vector_Dot enxyz tu / Vector_MagSquared tu)
                                   (Vector_Dot enxyz tv / Vector_MagSquared tv);
                    pin = ss_PointAt this (Point2d_Minus muv enuv);
                    pout = ss_PointAt this (Point2d_Plus muv enuv)
                in Inr (pt, Vector_Minus pin pt, Vector_Minus pout pt, surfn))))"

text \<open>
  The part of \<^verbatim>\<open>MakeCopyTrimAgainst\<close> that builds the edge list \<^verbatim>\<open>inter\<close>: the body
  of the innermost loop for the segment that ends at point \<open>i\<close> of the curve \<open>sc\<close>, and the
  three nested loops.
\<close>

definition IntersectionEdge ::
  "env \<Rightarrow> SSurface \<Rightarrow> SSurface \<Rightarrow> CombineAs \<Rightarrow> bool \<Rightarrow> SCurve \<Rightarrow> nat \<Rightarrow> SEdge list \<Rightarrow> SEdge list" where
  "IntersectionEdge E ret ss type opA sc i intr =
    (let a = pt_p (sc_pts sc ! (i - 1));
         b = pt_p (sc_pts sc ! i);
         auv = ss_ClosestPointTo ss a True;
         buv = ss_ClosestPointTo ss b True;
         c = (case ss_bsp ss of
                Some bsp \<Rightarrow> ClassifyEdge E bsp auv buv ss
              | None \<Rightarrow> BSP_OUTSIDE)
     in if c \<noteq> BSP_OUTSIDE then
          (let tauv = ss_ClosestPointTo ret a True;
               tbuv = ss_ClosestPointTo ret b True;
               ta = Vector (px tauv) (py tauv) 0;
               tb = Vector (px tbuv) (py tbuv) 0;
               tn = ss_NormalAt ret (vx ta) (vy ta);
               sn = ss_NormalAt ss (px auv) (py auv);
               bkwds = True;
               bkwds = (if Vector_Dot (Vector_Cross tn (Vector_Minus b a)) sn < 0
                        then \<not> bkwds else bkwds);
               bkwds = (if type = DIFFERENCE \<and> \<not> opA then \<not> bkwds else bkwds)
           in if bkwds then AddEdge intr tb ta (int_of_uint32 (sc_h sc)) 1
              else AddEdge intr ta tb (int_of_uint32 (sc_h sc)) 0)
        else intr)"

definition IntersectionEdges ::
  "env \<Rightarrow> store \<Rightarrow> SSurface \<Rightarrow> SSurface \<Rightarrow> SShell_ptr \<Rightarrow> SShell_ptr \<Rightarrow> CombineAs \<Rightarrow> bool
     \<Rightarrow> SEdge list" where
  "IntersectionEdges E st this ret agnst into type opA =
     fold (\<lambda>ss intr.
        fold (\<lambda>sc intr.
           if sc_source sc \<noteq> Source_INTERSECTION then intr
           else if (if opA then sc_surfA sc \<noteq> ss_h this \<or> sc_surfB sc \<noteq> ss_h ss
                    else sc_surfB sc \<noteq> ss_h this \<or> sc_surfA sc \<noteq> ss_h ss) then intr
           else fold (IntersectionEdge E ret ss type opA sc) [1..<length (sc_pts sc)] intr)
          (curve (st into)) intr)
       (surface (st agnst)) []"

text \<open>
  The two \<^verbatim>\<open>while\<close> loops of \<^verbatim>\<open>MakeCopyTrimAgainst\<close> that use up \<^verbatim>\<open>orig\<close> and
  \<^verbatim>\<open>inter\<close> have the same body but for the classification of the two sides against
  the original trim polygon, which is the parameter \<open>orig_side\<close>.
\<close>

function ChainsLoop ::
  "env \<Rightarrow> store \<Rightarrow> SSurface \<Rightarrow> SShell_ptr \<Rightarrow> SShell_ptr \<Rightarrow> SShell_ptr \<Rightarrow> SShell_ptr \<Rightarrow> CombineAs
     \<Rightarrow> bool \<Rightarrow> (Point2d \<Rightarrow> Point2d \<Rightarrow> SShell_Class \<times> SShell_Class) \<Rightarrow> SPoint list
     \<Rightarrow> SEdge list \<Rightarrow> SEdge list \<Rightarrow> error + SEdge list" where
  "ChainsLoop E st ret agnst into sha shb type opA orig_side choosing src final =
    (if src = [] then Inr final
     else
       (case FindChainAvoiding E src [] choosing of
          Inl e \<Rightarrow> Inl e
        | Inr (src', chain) \<Rightarrow>
           (let se = chain ! (length chain div 2);
                auv = Vector_ProjectXy (se_a se);
                buv = Vector_ProjectXy (se_b se)
            in case EdgeNormalsWithinSurface E st ret auv buv (uint32_of_int (se_auxA se))
                      into sha shb of
                 Inl e \<Rightarrow> Inl e
               | Inr (pt, enin, enout, surfn) \<Rightarrow>
                  (let (indir_orig, outdir_orig) = orig_side auv buv;
                       (indir_shell, outdir_shell) =
                          Shell_ClassifyEdge E st agnst (ss_PointAt ret auv) (ss_PointAt ret buv)
                            pt enin enout surfn
                   in case KeepEdge type opA indir_shell outdir_shell indir_orig outdir_orig of
                        Inl e \<Rightarrow> Inl e
                      | Inr keep \<Rightarrow>
                          ChainsLoop E st ret agnst into sha shb type opA orig_side choosing src'
                            (if keep then
                               fold (\<lambda>se fin. AddEdge fin (se_a se) (se_b se) (se_auxA se)
                                                  (se_auxB se)) chain final
                             else final)))))"
  by pat_completeness auto
termination
proof (relation "measure (\<lambda>(E, st, ret, agnst, into, sha, shb, type, opA, os, ch, src, final).
                            length src)")
  show "wf (measure (\<lambda>(E, st, ret, agnst, into, sha, shb, type, opA, os, ch, src, final).
                            length src))"
    by simp
next
  fix E :: env and st :: store and ret :: SSurface and agnst into sha shb :: SShell_ptr
    and type :: CombineAs and opA :: bool
    and orig_side :: "Point2d \<Rightarrow> Point2d \<Rightarrow> SShell_Class \<times> SShell_Class"
    and choosing src final x src' chain and fin' :: "SEdge list"
  assume "FindChainAvoiding E src [] choosing = Inr x" and "(src', chain) = x"
  then have "FindChainAvoiding E src [] choosing = Inr (src', chain)" by simp
  from FindChainAvoiding_shorter [OF this]
  show "((E, st, ret, agnst, into, sha, shb, type, opA, orig_side, choosing, src', fin'),
         (E, st, ret, agnst, into, sha, shb, type, opA, orig_side, choosing, src, final))
        \<in> measure (\<lambda>(E, st, ret, agnst, into, sha, shb, type, opA, os, ch, src, final).
                            length src)"
    by simp
qed


text \<open>
  \<^verbatim>\<open>MakeCopyTrimAgainst\<close> in three parts. The first part is the function up to the
  \<^verbatim>\<open>RemoveTagged\<close> on the choosing points: it builds the copy \<open>ret\<close> without its trims,
  the original trim polygon \<open>orig\<close> and its BSP, the intersection edges \<open>inter\<close> (\<open>intr\<close>
  here) and the list \<open>choosing\<close>.
\<close>

definition MakeCopyTrimAgainst_lists ::
  "env \<Rightarrow> SSurface \<Rightarrow> SShell_ptr \<Rightarrow> SShell_ptr \<Rightarrow> SShell_ptr \<Rightarrow> SShell_ptr \<Rightarrow> CombineAs \<Rightarrow> store
     \<Rightarrow> error + SSurface \<times> SEdge list \<times> SBspUv option \<times> SEdge list \<times> SPoint list" where
  "MakeCopyTrimAgainst_lists E this parent sha shb into type st =
    (let opA = (parent = sha);
         agnst = (if opA then shb else sha);
         ret = this\<lparr>ss_trim := []\<rparr>
     in case mapE (\<lambda>stb. case SCurve_FindById (curve (st parent)) (stb_curve stb) of
                            Inl e \<Rightarrow> Inl e
                          | Inr j \<Rightarrow> Inr (stb\<lparr>stb_curve := sc_newH (curve (st parent) ! j)\<rparr>))
                  (ss_trim this) of
          Inl e \<Rightarrow> Inl e
        | Inr trims \<Rightarrow>
           (let ret = ret\<lparr>ss_trim := trims\<rparr>;
                ret = (if type = DIFFERENCE \<and> \<not> opA then Reverse E ret else ret);
                orig = MakeEdgesInto E st ret into UV None;
                ret = ret\<lparr>ss_trim := []\<rparr>;
                origBsp = SBspUv_From E orig ret;
                intr = IntersectionEdges E st this ret agnst into type opA;
                choosing = ChoosingPoints E orig intr
            in Inr (ret, orig, origBsp, intr, choosing)))"

text \<open>
  The second part is the two \<^verbatim>\<open>while\<close> loops, which use up \<open>orig\<close> and then \<open>inter\<close>, each
  calling \<^verbatim>\<open>FindChainAvoiding\<close> with \<open>choosing\<close> as the points to avoid, and the call of
  \<^verbatim>\<open>TrimFromEdgeList\<close> on the culled edges. It returns the retrimmed copy and the edge
  list \<open>final\<close>. These two parts read the shells and write none.
\<close>

definition MakeCopyTrimAgainst_edges ::
  "env \<Rightarrow> SSurface \<Rightarrow> SShell_ptr \<Rightarrow> SShell_ptr \<Rightarrow> SShell_ptr \<Rightarrow> SShell_ptr \<Rightarrow> CombineAs \<Rightarrow> store
     \<Rightarrow> error + SSurface \<times> SEdge list" where
  "MakeCopyTrimAgainst_edges E this parent sha shb into type st =
    (let opA = (parent = sha);
         agnst = (if opA then shb else sha)
     in case MakeCopyTrimAgainst_lists E this parent sha shb into type st of
          Inl e \<Rightarrow> Inl e
        | Inr (ret, orig, origBsp, intr, choosing) \<Rightarrow>
           (case ChainsLoop E st ret agnst into sha shb type opA
                   (\<lambda>auv buv. (INSIDE, OUTSIDE)) choosing orig [] of
              Inl e \<Rightarrow> Inl e
            | Inr final \<Rightarrow>
               (case ChainsLoop E st ret agnst into sha shb type opA
                       (\<lambda>auv buv. TagByClassifiedEdge
                          (case origBsp of
                             Some bsp \<Rightarrow> ClassifyEdge E bsp auv buv ret
                           | None \<Rightarrow> BSP_OUTSIDE))
                       choosing intr final of
                  Inl e \<Rightarrow> Inl e
                | Inr final \<Rightarrow>
                    Inr (TrimFromEdgeList E ret (CullExtraneousEdges E final) True))))"

text \<open>
  The third part, and \<^verbatim>\<open>MakeCopyTrimAgainst\<close> itself: the copy is returned; when the
  edges do not assemble into a polygon, \<^verbatim>\<open>booleanFailed\<close> is set in the shell \<open>into\<close>.
\<close>

definition MakeCopyTrimAgainst ::
  "env \<Rightarrow> SSurface \<Rightarrow> SShell_ptr \<Rightarrow> SShell_ptr \<Rightarrow> SShell_ptr \<Rightarrow> SShell_ptr \<Rightarrow> CombineAs \<Rightarrow> store
     \<Rightarrow> error + SSurface \<times> store" where
  "MakeCopyTrimAgainst E this parent sha shb into type st =
    (case MakeCopyTrimAgainst_edges E this parent sha shb into type st of
       Inl e \<Rightarrow> Inl e
     | Inr (ret, final) \<Rightarrow>
        (let final = SEdge_ClearTags final in
         if \<not> AssemblePolygon E final True
         then Inr (ret, st(into := (st into)\<lparr>booleanFailed := True\<rparr>))
         else Inr (ret, st)))"

definition CopySurfacesTrimAgainst_step ::
  "env \<Rightarrow> SShell_ptr \<Rightarrow> SShell_ptr \<Rightarrow> SShell_ptr \<Rightarrow> SShell_ptr \<Rightarrow> CombineAs \<Rightarrow> nat \<Rightarrow> store
     \<Rightarrow> error + store" where
  "CopySurfacesTrimAgainst_step E this sha shb into type i st =
    (case MakeCopyTrimAgainst E (surface (st this) ! i) this sha shb into type st of
       Inl e \<Rightarrow> Inl e
     | Inr (ssn, st) \<Rightarrow> Inr (AddSurfaceAndNoteNewH into this i ssn st))"

definition CopySurfacesTrimAgainst ::
  "env \<Rightarrow> SShell_ptr \<Rightarrow> SShell_ptr \<Rightarrow> SShell_ptr \<Rightarrow> SShell_ptr \<Rightarrow> CombineAs \<Rightarrow> store
     \<Rightarrow> error + store" where
  "CopySurfacesTrimAgainst E this sha shb into type st =
     foldE (CopySurfacesTrimAgainst_step E this sha shb into type)
       [0..<length (surface (st this))] st"

definition MakeFromBoolean ::
  "env \<Rightarrow> SShell_ptr \<Rightarrow> SShell_ptr \<Rightarrow> SShell_ptr \<Rightarrow> CombineAs \<Rightarrow> store \<Rightarrow> error + store" where
  "MakeFromBoolean E this a b type st =
    (let st = st(this := (st this)\<lparr>booleanFailed := False\<rparr>);
         st = MakeClassifyingBsps E a None st;
         st = MakeClassifyingBsps E b None st
     in case CopyCurvesSplitAgainst E True a b this st of
          Inl e \<Rightarrow> Inl e
        | Inr st \<Rightarrow>
       (case CopyCurvesSplitAgainst E False b a this st of
          Inl e \<Rightarrow> Inl e
        | Inr st \<Rightarrow>
       (let st = MakeIntersectionCurvesAgainst E a b this st in
        case foldE (RemoveShortSegments_step E this a b) [0..<length (curve (st this))] st of
          Inl e \<Rightarrow> Inl e
        | Inr st \<Rightarrow>
       (let st = CleanupAfterBoolean st a;
            st = CleanupAfterBoolean st b;
            st = MakeClassifyingBsps E a (Some this) st;
            st = MakeClassifyingBsps E b (Some this) st
        in case CopySurfacesTrimAgainst E a a b this type st of
          Inl e \<Rightarrow> Inl e
        | Inr st \<Rightarrow>
       (case CopySurfacesTrimAgainst E b a b this type st of
          Inl e \<Rightarrow> Inl e
        | Inr st \<Rightarrow>
       (case RewriteSurfaceHandlesForCurves this a b st of
          Inl e \<Rightarrow> Inl e
        | Inr st \<Rightarrow>
           Inr (CleanupAfterBoolean (CleanupAfterBoolean st a) b)))))))"

definition MakeFromUnionOf ::
  "env \<Rightarrow> SShell_ptr \<Rightarrow> SShell_ptr \<Rightarrow> SShell_ptr \<Rightarrow> store \<Rightarrow> error + store" where
  "MakeFromUnionOf E this a b st = MakeFromBoolean E this a b UNION st"

definition MakeFromDifferenceOf ::
  "env \<Rightarrow> SShell_ptr \<Rightarrow> SShell_ptr \<Rightarrow> SShell_ptr \<Rightarrow> store \<Rightarrow> error + store" where
  "MakeFromDifferenceOf E this a b st = MakeFromBoolean E this a b DIFFERENCE st"

section \<open>Handles and scratch fields across a run\<close>

text \<open>
  What a run may change in a shell other than the result: the \<open>newH\<close> slot of a curve, and
  the \<open>newH\<close> slot, the BSP pointer and the edge list of a surface. Two shells are the same
  but for these scratch fields when they agree on everything else.
\<close>

definition strip_curve :: "SCurve \<Rightarrow> SCurve" where
  "strip_curve c = c\<lparr>sc_newH := 0\<rparr>"

definition strip_surface :: "SSurface \<Rightarrow> SSurface" where
  "strip_surface s = s\<lparr>ss_newH := 0, ss_bsp := None, ss_edges := []\<rparr>"

definition same_but_scratch :: "SShell \<Rightarrow> SShell \<Rightarrow> bool" where
  "same_but_scratch sh sh' \<longleftrightarrow>
     booleanFailed sh' = booleanFailed sh
   \<and> map strip_curve (curve sh') = map strip_curve (curve sh)
   \<and> map strip_surface (surface sh') = map strip_surface (surface sh)"

text \<open>
  The handles of a list after some elements were added to it with \<^verbatim>\<open>AddAndAssignId\<close>:
  the old handles followed by consecutive fresh ones.
\<close>

definition fresh_handles :: "nat list \<Rightarrow> nat list \<Rightarrow> bool" where
  "fresh_handles hs hs' \<longleftrightarrow>
     (\<exists>n. hs' = hs @ [MaximumId hs + 1 ..< MaximumId hs + 1 + n])"

text \<open>
  From \<open>st\<close> to \<open>st'\<close> the result shell \<open>this\<close> has only gained curves and surfaces under
  fresh handles, and every other shell is the same but for its scratch fields.
\<close>

definition progress :: "SShell_ptr \<Rightarrow> store \<Rightarrow> store \<Rightarrow> bool" where
  "progress this st st' \<longleftrightarrow>
     fresh_handles (map sc_h (curve (st this))) (map sc_h (curve (st' this)))
   \<and> fresh_handles (map ss_h (surface (st this))) (map ss_h (surface (st' this)))
   \<and> (\<forall>x. x \<noteq> this \<longrightarrow> same_but_scratch (st x) (st' x))"

text \<open>
  Every curve (surface) of the shell \<open>x\<close> has in its \<open>newH\<close> slot the handle of a curve
  (surface) of the result shell that stands at position \<open>n0\<close> or later.
\<close>

definition curves_noted :: "nat \<Rightarrow> SShell_ptr \<Rightarrow> SShell_ptr \<Rightarrow> store \<Rightarrow> bool" where
  "curves_noted n0 this x st \<longleftrightarrow>
     (\<forall>c \<in> set (curve (st x)). sc_newH c \<in> set (drop n0 (map sc_h (curve (st this)))))"

definition surfaces_noted :: "nat \<Rightarrow> SShell_ptr \<Rightarrow> SShell_ptr \<Rightarrow> store \<Rightarrow> bool" where
  "surfaces_noted n0 this x st \<longleftrightarrow>
     (\<forall>s \<in> set (surface (st x)). ss_newH s \<in> set (drop n0 (map ss_h (surface (st this)))))"

text \<open>
  A step that moreover leaves the curves of the other shells, with their \<open>newH\<close> slots,
  and the \<open>newH\<close> slots of their surfaces as they are.
\<close>

definition quiet :: "SShell_ptr \<Rightarrow> store \<Rightarrow> store \<Rightarrow> bool" where
  "quiet this st st' \<longleftrightarrow>
     progress this st st'
   \<and> (\<forall>x. x \<noteq> this \<longrightarrow>
          curve (st' x) = curve (st x)
        \<and> map ss_newH (surface (st' x)) = map ss_newH (surface (st x)))"

text \<open>
  Every curve of the result shell has in \<open>surfA\<close> and \<open>surfB\<close> the \<open>newH\<close> of a surface of
  one of the operands.
\<close>

definition surfs_resolved :: "SShell_ptr \<Rightarrow> SShell_ptr \<Rightarrow> SShell_ptr \<Rightarrow> store \<Rightarrow> bool" where
  "surfs_resolved this a b st \<longleftrightarrow>
     (\<forall>c \<in> set (curve (st this)).
        sc_surfA c \<in> ss_newH ` (set (surface (st a)) \<union> set (surface (st b)))
      \<and> sc_surfB c \<in> ss_newH ` (set (surface (st a)) \<union> set (surface (st b))))"

text \<open>
  The handle property of the specification. A handle designates exactly one curve
  (surface) added to the result shell when exactly one position of the list of the
  result shell holds an element with that handle, and that position is not one of the
  list before the run. After a run, the curves and surfaces of each operand are as many
  as before, the \<open>newH\<close> of each designates exactly one added curve or surface, and the
  \<open>surfA\<close> and \<open>surfB\<close> of every curve of the result shell are handles of surfaces of the
  result shell.
\<close>

definition designates_added_curve :: "store \<Rightarrow> store \<Rightarrow> SShell_ptr \<Rightarrow> hSCurve \<Rightarrow> bool" where
  "designates_added_curve st st' this h \<longleftrightarrow>
     (\<exists>!j. j < length (curve (st' this)) \<and> sc_h (curve (st' this) ! j) = h)
   \<and> (\<forall>j < length (curve (st' this)).
         sc_h (curve (st' this) ! j) = h \<longrightarrow> length (curve (st this)) \<le> j)"

definition designates_added_surface :: "store \<Rightarrow> store \<Rightarrow> SShell_ptr \<Rightarrow> hSSurface \<Rightarrow> bool" where
  "designates_added_surface st st' this h \<longleftrightarrow>
     (\<exists>!j. j < length (surface (st' this)) \<and> ss_h (surface (st' this) ! j) = h)
   \<and> (\<forall>j < length (surface (st' this)).
         ss_h (surface (st' this) ! j) = h \<longrightarrow> length (surface (st this)) \<le> j)"

definition spec_handle_bijection ::
  "store \<Rightarrow> store \<Rightarrow> SShell_ptr \<Rightarrow> SShell_ptr \<Rightarrow> SShell_ptr \<Rightarrow> bool" where
  "spec_handle_bijection st st' this a b \<longleftrightarrow>
     (\<forall>x \<in> {a, b}.
          length (curve (st' x)) = length (curve (st x))
        \<and> length (surface (st' x)) = length (surface (st x))
        \<and> (\<forall>c \<in> set (curve (st' x)). designates_added_curve st st' this (sc_newH c))
        \<and> (\<forall>s \<in> set (surface (st' x)). designates_added_surface st st' this (ss_newH s)))
   \<and> (\<forall>c \<in> set (curve (st' this)).
          sc_surfA c \<in> ss_h ` set (surface (st' this))
        \<and> sc_surfB c \<in> ss_h ` set (surface (st' this)))"

section \<open>Concrete inputs\<close>

text \<open>
  An instance of the external collaborators: Euclidean vector utilities with the
  tolerance \<open>10\<^sup>-\<^sup>6\<close>, intersectors that find nothing, a refinement that leaves the
  point where it is, the identity for every transformation, a surface that lifts no
  edges, a shell that classifies everything as outside and a polygon assembly that
  succeeds.
\<close>

definition Euclid :: env where
  "Euclid = \<lparr>
     LENGTH_EPS = 1 / 1000000,
     VERY_POSITIVE = 10000000000,
     ChordTolMm = 1 / 10,
     Vector_Magnitude = (\<lambda>v. sqrt (Vector_MagSquared v)),
     Vector_WithMagnitude = (\<lambda>v s. let m = sqrt (Vector_MagSquared v) in
        if m = 0 then Vector s 0 0 else Vector (vx v * s / m) (vy v * s / m) (vz v * s / m)),
     Vector_Equals = (\<lambda>p q.
        Vector_MagSquared (Vector_Minus p q) < (1 / 1000000) * (1 / 1000000)),
     Vector_DivProjected = (\<lambda>p d. Vector_Dot p d / Vector_MagSquared d),
     Point2d_Normal = (\<lambda>p. Point2d (py p) (- px p)),
     Point2d_WithMagnitude = (\<lambda>p s. let m = sqrt (px p * px p + py p * py p) in
        if m = 0 then Point2d s 0 else Point2d (px p * s / m) (py p * s / m)),
     Point2d_DistanceToLine = (\<lambda>p p0 dp asSegment.
        let m = px dp * px dp + py dp * py dp in
        if m < (1 / 1000000) * (1 / 1000000) then 10000000000
        else let t = (px dp * (px p - px p0) + py dp * (py p - py p0)) / m;
                 c = (if asSegment \<and> t < 0 then p0
                      else if asSegment \<and> t > 1 then Point2d_Plus p0 dp
                      else Point2d_Plus p0 (Point2d_ScaledBy dp t));
                 e = Point2d_Minus p c
             in sqrt (px e * px e + py e * py e)),
     AllPointsIntersecting = (\<lambda>st sh a b asSegment trimmed inclTangent. []),
     PointOnSurfaces = (\<lambda>srf sa sb puv. puv),
     ClosestPointOnThisAndSurface = (\<lambda>s1 s2 p. p),
     Reverse = (\<lambda>ss. ss),
     MakeEdgesInto = (\<lambda>st ss sh mk useCurvesFrom. []),
     IntersectAgainst = (\<lambda>st sa sb sha shb into. []),
     RemoveShortSegments = (\<lambda>sc srfA srfB. sc_pts sc),
     SCurve_FromTransformationOf = (\<lambda>c t q scale. c),
     SSurface_FromTransformationOf = (\<lambda>s t q scale includingTrims.
        if includingTrims then s else s\<lparr>ss_trim := []\<rparr>),
     Shell_ClassifyEdge = (\<lambda>st sh a b pt enin enout surfn. (OUTSIDE, OUTSIDE)),
     CullExtraneousEdges = (\<lambda>el. el),
     AssemblePolygon = (\<lambda>el keepDir. True) \<rparr>"

text \<open>The plane \<open>z = 0\<close>, parametrised by \<open>(u, v) \<mapsto> (u, v, 0)\<close>, untrimmed.\<close>

definition Plane :: SSurface where
  "Plane = \<lparr> ss_h = 1, ss_newH = 0, ss_trim = [], ss_bsp = None, ss_edges = [],
     ss_PointAt = (\<lambda>p. Vector (px p) (py p) 0),
     ss_NormalAt = (\<lambda>u v. Vector 0 0 1),
     ss_TangentsAt = (\<lambda>u v. (Vector 1 0 0, Vector 0 1 0)),
     ss_ClosestPointTo = (\<lambda>p mustConverge. Point2d (vx p) (vy p)) \<rparr>"

text \<open>
  Two trees over the segment from \<open>(0, 0)\<close> to \<open>(1, 0)\<close>: one with a \<open>pos\<close> child only,
  one with both children. The query point \<open>(2, 0)\<close> is on the line of the root and on
  none of its segments.
\<close>

definition bsp_pos_child :: SBspUv where
  "bsp_pos_child = SBspUv (Point2d 1 (-1)) (Point2d 0 (-1)) None None None"

definition bsp_neg_child :: SBspUv where
  "bsp_neg_child = SBspUv (Point2d 0 1) (Point2d 1 1) None None None"

definition bsp_pos_only :: SBspUv where
  "bsp_pos_only = SBspUv (Point2d 0 0) (Point2d 1 0) (Some bsp_pos_child) None None"

definition bsp_both :: SBspUv where
  "bsp_both =
     SBspUv (Point2d 0 0) (Point2d 1 0) (Some bsp_pos_child) (Some bsp_neg_child) None"

text \<open>
  A plane trimmed by the single edge from \<open>(0, 0)\<close> to \<open>(1, 0)\<close>, a store whose shells all
  hold that one surface, and two intersections with it: one on the trim edge, one at
  distance \<open>1/20\<close> from it on the outer side.
\<close>

definition trim_node :: SBspUv where
  "trim_node = SBspUv (Point2d 0 0) (Point2d 1 0) None None None"

definition TrimmedPlane :: SSurface where
  "TrimmedPlane = Plane\<lparr>ss_bsp := Some trim_node\<rparr>"

definition one_surface_store :: store where
  "one_surface_store = (\<lambda>sh. \<lparr>curve = [], surface = [TrimmedPlane], booleanFailed = False\<rparr>)"

definition on_edge_inter :: SInter where
  "on_edge_inter = \<lparr>si_tag = 0, si_p = Vector (1/2) 0 0, si_srf = (0, 0)\<rparr>"


text \<open>
  A straight curve from the origin to \<open>(1, 0, 0)\<close> with two sampled points, and an
  intersector that reports the intersection \<open>on_edge_inter\<close> at \<open>(1/2, 0, 0)\<close> on every
  segment.
\<close>

definition line_curve :: SCurve where
  "line_curve = \<lparr> sc_h = 1, sc_newH = 0, sc_isExact = True,
     sc_exact = \<lparr> bz_deg = 1, bz_PointAt = (\<lambda>t. Vector t 0 0),
                  bz_ClosestPointTo = (\<lambda>p mustConverge. vx p) \<rparr>,
     sc_surfA = 1, sc_surfB = 2,
     sc_pts = [\<lparr>pt_tag = 0, pt_p = Vector 0 0 0, pt_vertex = True\<rparr>,
               \<lparr>pt_tag = 0, pt_p = Vector 1 0 0, pt_vertex = True\<rparr>],
     sc_source = Source_A \<rparr>"

definition split_env :: env where
  "split_env =
     Euclid\<lparr>AllPointsIntersecting :=
              (\<lambda>st sh a b asSegment trimmed inclTangent. [on_edge_inter])\<rparr>"


text \<open>An edge from \<open>(0,0,0)\<close> to \<open>(1,0,0)\<close> and an edge from \<open>(1,0,0)\<close> to \<open>(1,1,0)\<close>.\<close>

definition orig_AB :: "SEdge list" where
  "orig_AB = [\<lparr>se_tag = 0, se_auxA = 1, se_auxB = 0, se_a = Vector 0 0 0, se_b = Vector 1 0 0\<rparr>]"

definition intr_BC :: "SEdge list" where
  "intr_BC = [\<lparr>se_tag = 0, se_auxA = 2, se_auxB = 0, se_a = Vector 1 0 0, se_b = Vector 1 1 0\<rparr>]"






text \<open>
  A shell of one face: the plane trimmed by one curve, and that curve, which has the
  face on both sides. A store whose shell 0 is empty with \<^verbatim>\<open>booleanFailed\<close> set and whose
  other shells are this shell, and the store after the assembly of the shells 3 and 2
  into the shell 0.
\<close>

definition seam_curve :: SCurve where
  "seam_curve = line_curve\<lparr>sc_surfB := 1\<rparr>"

definition seam_trim :: STrimBy where
  "seam_trim = \<lparr>stb_curve = 1, stb_backwards = False,
                 stb_start = Vector 0 0 0, stb_finish = Vector 1 0 0\<rparr>"

definition face :: SSurface where
  "face = Plane\<lparr>ss_trim := [seam_trim]\<rparr>"

definition one_face :: SShell where
  "one_face = \<lparr>curve = [seam_curve], surface = [face], booleanFailed = False\<rparr>"

definition two_shells :: store where
  "two_shells =
     (\<lambda>sh. if sh = 0 then \<lparr>curve = [], surface = [], booleanFailed = True\<rparr> else one_face)"

definition assembly_result :: store where
  "assembly_result =
     (\<lambda>sh. if sh = 0 then
              \<lparr>curve = [seam_curve\<lparr>sc_h := 1, sc_source := Source_A, sc_surfA := 1, sc_surfB := 1\<rparr>,
                        seam_curve\<lparr>sc_h := 2, sc_source := Source_B, sc_surfA := 2, sc_surfB := 2\<rparr>],
               surface = [face\<lparr>ss_h := 1\<rparr>,
                          face\<lparr>ss_h := 2, ss_trim := [seam_trim\<lparr>stb_curve := 2\<rparr>]\<rparr>],
               booleanFailed = False\<rparr>
            else if sh = 3 then
              \<lparr>curve = [seam_curve\<lparr>sc_newH := 1\<rparr>], surface = [face\<lparr>ss_newH := 1\<rparr>],
               booleanFailed = False\<rparr>
            else if sh = 2 then
              \<lparr>curve = [seam_curve\<lparr>sc_newH := 2\<rparr>], surface = [face\<lparr>ss_newH := 2\<rparr>],
               booleanFailed = False\<rparr>
            else one_face)"

text \<open>
  An environment in which every surface lifts the edge \<open>orig_AB\<close> from the split curves
  (when \<open>useCurvesFrom\<close> is given) and nothing from its own trims, and the store after
  the union of the shells 3 and 2 into the shell 0 in that environment.
\<close>

definition bool_env :: env where
  "bool_env =
     Euclid\<lparr>MakeEdgesInto :=
              (\<lambda>st ss sh mk useCurvesFrom.
                 if mk = UV \<and> useCurvesFrom \<noteq> None then orig_AB else [])\<rparr>"

definition boolean_result :: store where
  "boolean_result =
     (\<lambda>sh. if sh = 0 then
              \<lparr>curve = [seam_curve\<lparr>sc_h := 1, sc_source := Source_A, sc_surfA := 1, sc_surfB := 1\<rparr>,
                        seam_curve\<lparr>sc_h := 2, sc_source := Source_B, sc_surfA := 2, sc_surfB := 2\<rparr>],
               surface = [face\<lparr>ss_h := 1, ss_trim := [], ss_bsp := Some trim_node\<rparr>,
                          face\<lparr>ss_h := 2, ss_trim := [], ss_bsp := Some trim_node\<rparr>],
               booleanFailed = False\<rparr>
            else if sh = 3 then
              \<lparr>curve = [seam_curve\<lparr>sc_newH := 1\<rparr>],
               surface = [face\<lparr>ss_newH := 1, ss_bsp := Some trim_node\<rparr>],
               booleanFailed = False\<rparr>
            else if sh = 2 then
              \<lparr>curve = [seam_curve\<lparr>sc_newH := 2\<rparr>],
               surface = [face\<lparr>ss_newH := 2, ss_bsp := Some trim_node\<rparr>],
               booleanFailed = False\<rparr>
            else one_face)"

section \<open>Properties of the keep policy\<close>

lemma KeepRegion_not_inside_orig:
  "orig \<noteq> INSIDE \<Longrightarrow> KeepRegion type opA shell orig = Inr False"
  by (simp add: KeepRegion_def)

lemma KeepRegion_inside_orig:
  "type \<noteq> OTHER_COMBINE \<Longrightarrow>
   KeepRegion type opA shell INSIDE = Inr (spec_keep_table type opA shell)"
  by (cases type; cases shell; simp add: KeepRegion_def spec_keep_table_def)

lemma KeepRegion_other_combine:
  "KeepRegion OTHER_COMBINE opA shell orig =
     (if orig = INSIDE then Inl Unexpected_combine_type else Inr False)"
  by (simp add: KeepRegion_def)

lemma KeepEdge_true_iff:
  "KeepEdge type opA indir_shell outdir_shell indir_orig outdir_orig = Inr True \<longleftrightarrow>
     KeepRegion type opA indir_shell indir_orig = Inr True \<and>
     KeepRegion type opA outdir_shell outdir_orig = Inr False"
  by (auto simp: KeepEdge_def split: sum.splits)

lemma KeepRegion_every_orig:
  assumes "type = UNION \<or> type = DIFFERENCE"
  shows "KeepRegion type opA shell orig =
           Inr (if orig \<noteq> INSIDE then False else spec_keep_table type opA shell)"
proof (cases "orig = INSIDE")
  case True
  with assms show ?thesis
    using KeepRegion_inside_orig [of type opA shell] by auto
next
  case False
  then show ?thesis
    by (simp add: KeepRegion_not_inside_orig)
qed

text \<open>
  Claim C1. \<open>orig\<close> says whether the side lies within the face, so it is \<open>INSIDE\<close> or
  \<open>OUTSIDE\<close>: the two calls of \<^verbatim>\<open>KeepEdge\<close> pass these two literals or a pair that
  \<^verbatim>\<open>TagByClassifiedEdge\<close> returns. For a combine type in \<open>{UNION, DIFFERENCE}\<close>, every
  operand flag, every shell classification and every such \<open>orig\<close>, \<open>KeepRegion\<close> returns
  false when \<open>orig = OUTSIDE\<close> and otherwise the keep table of the specification:
  not inside the shell and not on a face for UNION-A and DIFFERENCE-A, that or
  \<open>COINC_SAME\<close> for UNION-B, and inside the shell and not on a face, or \<open>COINC_SAME\<close>,
  for DIFFERENCE-B.
\<close>

theorem KeepRegion_implements_keep_table:
  assumes "type = UNION \<or> type = DIFFERENCE" and "orig = INSIDE \<or> orig = OUTSIDE"
  shows "KeepRegion type opA shell orig =
           Inr (if orig = OUTSIDE then False else spec_keep_table type opA shell)"
  using assms(2) KeepRegion_every_orig [OF assms(1), of opA shell orig] by auto

theorem KeepRegion_implements_keep_table_witness:
  "(DIFFERENCE = UNION \<or> DIFFERENCE = DIFFERENCE) \<and> (INSIDE = INSIDE \<or> INSIDE = OUTSIDE)
   \<and> KeepRegion DIFFERENCE False INSIDE INSIDE = Inr True
   \<and> spec_keep_table DIFFERENCE False INSIDE"
  using KeepRegion_implements_keep_table [of DIFFERENCE INSIDE False INSIDE]
  by (simp add: spec_keep_table_def)

text \<open>
  Every pair that \<^verbatim>\<open>TagByClassifiedEdge\<close> returns is made of \<open>INSIDE\<close> and \<open>OUTSIDE\<close>.
\<close>

lemma TagByClassifiedEdge_range:
  "fst (TagByClassifiedEdge c) \<in> {INSIDE, OUTSIDE} \<and> snd (TagByClassifiedEdge c) \<in> {INSIDE, OUTSIDE}"
  by (cases c) (simp_all add: TagByClassifiedEdge_def)

text \<open>
  Claim C9. For a combine type in \<open>{UNION, DIFFERENCE}\<close>, every operand flag and every
  \<open>orig\<close> classification, \<open>KeepRegion\<close> returns false when the shell classification is
  \<open>COINC_OPP\<close>.
\<close>

theorem KeepRegion_COINC_OPP_dropped:
  assumes "type = UNION \<or> type = DIFFERENCE"
  shows "KeepRegion type opA COINC_OPP orig = Inr False"
  using assms by (auto simp: KeepRegion_def)

theorem KeepRegion_COINC_OPP_dropped_witness:
  "(UNION = UNION \<or> UNION = DIFFERENCE) \<and> KeepRegion UNION False COINC_OPP INSIDE = Inr False"
  using KeepRegion_COINC_OPP_dropped [of UNION False INSIDE] by simp

text \<open>
  Claim C6. For every combine type, operand flag and pairs of classifications
  \<open>L = (indir_shell, indir_orig)\<close>, \<open>R = (outdir_shell, outdir_orig)\<close> with \<open>L \<noteq> R\<close>:
  if \<open>KeepEdge\<close> returns true on \<open>(L, R)\<close> it returns false on \<open>(R, L)\<close>; and \<open>KeepEdge\<close>
  returns true exactly when \<open>KeepRegion\<close> holds on the in-normal side and fails on the
  out-normal side.
\<close>

theorem KeepEdge_antisymmetric:
  assumes "(indir_shell, indir_orig) \<noteq> (outdir_shell, outdir_orig)"
  shows "(KeepEdge type opA indir_shell outdir_shell indir_orig outdir_orig = Inr True \<longrightarrow>
            KeepEdge type opA outdir_shell indir_shell outdir_orig indir_orig = Inr False)
       \<and> (KeepEdge type opA indir_shell outdir_shell indir_orig outdir_orig = Inr True \<longleftrightarrow>
            KeepRegion type opA indir_shell indir_orig = Inr True \<and>
            KeepRegion type opA outdir_shell outdir_orig = Inr False)"
proof
  show "KeepEdge type opA indir_shell outdir_shell indir_orig outdir_orig = Inr True \<longrightarrow>
          KeepEdge type opA outdir_shell indir_shell outdir_orig indir_orig = Inr False"
  proof
    assume "KeepEdge type opA indir_shell outdir_shell indir_orig outdir_orig = Inr True"
    then have "KeepRegion type opA indir_shell indir_orig = Inr True"
      and "KeepRegion type opA outdir_shell outdir_orig = Inr False"
      by (simp_all add: KeepEdge_true_iff)
    then show "KeepEdge type opA outdir_shell indir_shell outdir_orig indir_orig = Inr False"
      by (simp add: KeepEdge_def)
  qed
next
  show "KeepEdge type opA indir_shell outdir_shell indir_orig outdir_orig = Inr True \<longleftrightarrow>
          KeepRegion type opA indir_shell indir_orig = Inr True \<and>
          KeepRegion type opA outdir_shell outdir_orig = Inr False"
    by (rule KeepEdge_true_iff)
qed

theorem KeepEdge_antisymmetric_witness:
  "(OUTSIDE, INSIDE) \<noteq> (OUTSIDE, OUTSIDE) \<and>
   KeepEdge UNION True OUTSIDE OUTSIDE INSIDE OUTSIDE = Inr True \<and>
   KeepEdge UNION True OUTSIDE OUTSIDE OUTSIDE INSIDE = Inr False"
proof -
  have ne: "(OUTSIDE, INSIDE) \<noteq> (OUTSIDE, OUTSIDE)" by simp
  have k: "KeepEdge UNION True OUTSIDE OUTSIDE INSIDE OUTSIDE = Inr True"
    by (simp add: KeepEdge_def KeepRegion_def)
  from KeepEdge_antisymmetric [OF ne, of UNION True] k ne show ?thesis by blast
qed

section \<open>Properties of the conversions\<close>

lemma int_of_uint32_of_int:
  assumes "- (2 ^ 31) \<le> i" and "i < 2 ^ 31"
  shows "int_of_uint32 (uint32_of_int i) = i"
proof (cases "0 \<le> i")
  case True
  with assms have "i mod 2 ^ 32 = i" by simp
  with True assms show ?thesis
    by (simp add: int_of_uint32_def uint32_of_int_def Let_def)
next
  case False
  with assms have "(i + 2 ^ 32) mod 2 ^ 32 = i + 2 ^ 32"
    by (intro mod_pos_pos_trivial) simp_all
  then have m: "i mod 2 ^ 32 = i + 2 ^ 32" by simp
  with False assms show ?thesis
    by (simp add: int_of_uint32_def uint32_of_int_def Let_def)
qed

lemma uint32_of_int_minus_one: "uint32_of_int (- 1) = 4294967295"
  by (simp add: uint32_of_int_def)

text \<open>
  Two joined edges whose \<open>auxA\<close> is \<open>-1\<close>: the handle of the trim is \<open>2\<^sup>3\<^sup>2 - 1\<close>, the
  comparison in the merging loop converts it back to \<open>-1\<close>, and the two edges become one
  trim.
\<close>

lemma TrimFromEdgeList_negative_auxA:
  "TrimFromEdgeList Euclid Plane
     [\<lparr>se_tag = 0, se_auxA = - 1, se_auxB = 0, se_a = Vector 0 0 0, se_b = Vector 1 0 0\<rparr>,
      \<lparr>se_tag = 0, se_auxA = - 1, se_auxB = 0, se_a = Vector 1 0 0, se_b = Vector 1 1 0\<rparr>] True =
     (Plane\<lparr>ss_trim := [\<lparr>stb_curve = 4294967295, stb_backwards = False,
                            stb_start = Vector 0 0 0, stb_finish = Vector 1 1 0\<rparr>]\<rparr>,
      [\<lparr>se_tag = 1, se_auxA = - 1, se_auxB = 0, se_a = Vector 0 0 0, se_b = Vector 1 0 0\<rparr>,
       \<lparr>se_tag = 1, se_auxA = - 1, se_auxB = 0, se_a = Vector 1 0 0, se_b = Vector 1 1 0\<rparr>])"
  by (simp add: TrimFromEdgeList_def SEdge_ClearTags_def Euclid_def Vector_MagSquared_def
      Vector_Minus_def Plane_def uint32_of_int_def int_of_uint32_def Let_def)

section \<open>Properties of the UV BSP\<close>

lemmas example_geometry =
  ScaledSignedDistanceToLine_def ScaledDistanceToLine_def ScalePoints_def Euclid_def
  Plane_def Vector_MagSquared_def Point2d_Minus_def Point2d_Dot_def Point2d_Plus_def
  Point2d_ScaledBy_def

lemma ClassifyPoint_chain_None_iff:
  "ClassifyPoint_chain E p eb srf f = None \<longleftrightarrow>
     (\<forall>g \<in> set (node_chain f).
        \<not> ScaledDistanceToLine E p (bsp_a g) (Point2d_Minus (bsp_b g) (bsp_a g)) True srf
            < LENGTH_EPS E)"
  by (induction E p eb srf f rule: ClassifyPoint_chain.induct) (auto simp: Let_def)

lemma ClassifyPoint_near_line:
  assumes "\<bar>ScaledSignedDistanceToLine E p (bsp_a n) (bsp_b n) srf\<bar> < LENGTH_EPS E"
    and "ClassifyPoint_chain E p eb srf (Some n) = None"
  shows "ClassifyPoint E n p eb srf =
           (case neg n of Some c \<Rightarrow> ClassifyPoint E c p eb srf | None \<Rightarrow> BSP_OUTSIDE)"
proof (cases n)
  case (SBspUv a b bpos bneg bmore)
  with assms have near: "\<bar>ScaledSignedDistanceToLine E p a b srf\<bar> < LENGTH_EPS E"
    and off: "ClassifyPoint_chain E p eb srf (Some (SBspUv a b bpos bneg bmore)) = None"
    by simp_all
  have "ClassifyPoint E (SBspUv a b bpos bneg bmore) p eb srf =
          (case bneg of Some c \<Rightarrow> ClassifyPoint E c p eb srf | None \<Rightarrow> BSP_OUTSIDE)"
    unfolding ClassifyPoint.simps [of E a b bpos bneg bmore p eb srf] Let_def
    using near off by simp
  with SBspUv show ?thesis by simp
qed

text \<open>
  Claim C3 (as amended). For every BSP node, query point \<open>p\<close> whose scaled signed distance
  to the node's line is within \<open>LENGTH_EPS\<close>, and edge reference \<open>eb\<close>, such that \<open>p\<close>
  lies on no segment of the node and its \<open>more\<close> chain: \<open>ClassifyPoint\<close> returns the
  classification of the \<open>neg\<close> child when that child exists, whether or not \<open>pos\<close> exists,
  and \<open>OUTSIDE\<close> when it does not exist, also when \<open>pos\<close> exists.
\<close>

theorem ClassifyPoint_near_line_takes_neg:
  assumes "\<bar>ScaledSignedDistanceToLine E p (bsp_a n) (bsp_b n) srf\<bar> < LENGTH_EPS E"
    and "\<forall>f \<in> set (node_chain (Some n)).
           \<not> ScaledDistanceToLine E p (bsp_a f) (Point2d_Minus (bsp_b f) (bsp_a f)) True srf
               < LENGTH_EPS E"
  shows "ClassifyPoint E n p eb srf =
           (case neg n of Some c \<Rightarrow> ClassifyPoint E c p eb srf | None \<Rightarrow> BSP_OUTSIDE)"
  using assms ClassifyPoint_near_line [of E p n srf eb]
  by (simp add: ClassifyPoint_chain_None_iff)

theorem ClassifyPoint_near_line_takes_neg_witness:
  "\<bar>ScaledSignedDistanceToLine Euclid (Point2d 2 0) (bsp_a bsp_both) (bsp_b bsp_both) Plane\<bar>
     < LENGTH_EPS Euclid
   \<and> node_chain (Some bsp_both) = [bsp_both]
   \<and> \<not> ScaledDistanceToLine Euclid (Point2d 2 0) (bsp_a bsp_both)
         (Point2d_Minus (bsp_b bsp_both) (bsp_a bsp_both)) True Plane < LENGTH_EPS Euclid
   \<and> neg bsp_both = Some bsp_neg_child
   \<and> ClassifyPoint Euclid bsp_both (Point2d 2 0) (Point2d 0 0) Plane =
       ClassifyPoint Euclid bsp_neg_child (Point2d 2 0) (Point2d 0 0) Plane"
proof -
  have near:
    "\<bar>ScaledSignedDistanceToLine Euclid (Point2d 2 0) (bsp_a bsp_both) (bsp_b bsp_both) Plane\<bar>
       < LENGTH_EPS Euclid"
    by (simp add: bsp_both_def example_geometry)
  have chain: "node_chain (Some bsp_both) = [bsp_both]"
    by (simp add: bsp_both_def)
  have off:
    "\<not> ScaledDistanceToLine Euclid (Point2d 2 0) (bsp_a bsp_both)
         (Point2d_Minus (bsp_b bsp_both) (bsp_a bsp_both)) True Plane < LENGTH_EPS Euclid"
    by (simp add: bsp_both_def example_geometry)
  have ng: "neg bsp_both = Some bsp_neg_child"
    by (simp add: bsp_both_def)
  from near chain off ng
    ClassifyPoint_near_line_takes_neg [of Euclid "Point2d 2 0" bsp_both Plane "Point2d 0 0"]
  show ?thesis by simp
qed

text \<open>
  Claim C3 as it is stated sends the point into \<open>pos\<close> when only \<open>pos\<close> exists. In the
  tree \<open>bsp_pos_only\<close> the \<open>pos\<close> child classifies \<open>(2, 0)\<close> as \<open>INSIDE\<close>; the root
  computes that for the mismatch diagnostic and returns \<open>c1\<close>, which is \<open>OUTSIDE\<close> for a
  null \<open>neg\<close>.
\<close>

theorem ClassifyPoint_pos_only_counterexample:
  "\<bar>ScaledSignedDistanceToLine Euclid (Point2d 2 0) (bsp_a bsp_pos_only) (bsp_b bsp_pos_only)
      Plane\<bar> < LENGTH_EPS Euclid
   \<and> node_chain (Some bsp_pos_only) = [bsp_pos_only]
   \<and> \<not> ScaledDistanceToLine Euclid (Point2d 2 0) (bsp_a bsp_pos_only)
         (Point2d_Minus (bsp_b bsp_pos_only) (bsp_a bsp_pos_only)) True Plane < LENGTH_EPS Euclid
   \<and> neg bsp_pos_only = None
   \<and> pos bsp_pos_only = Some bsp_pos_child
   \<and> ClassifyPoint Euclid bsp_pos_child (Point2d 2 0) (Point2d 0 0) Plane = BSP_INSIDE
   \<and> ClassifyPoint Euclid bsp_pos_only (Point2d 2 0) (Point2d 0 0) Plane = BSP_OUTSIDE"
  by (simp add: bsp_pos_only_def bsp_pos_child_def example_geometry)

section \<open>Properties of the curve splitter\<close>

lemmas example_store =
  one_surface_store_def TrimmedPlane_def trim_node_def SurfaceAt_def

lemma SplitLoop_closed_form:
  "SplitLoop E st agnstA agnstB srfA srfB prev ps =
     concat (map (\<lambda>(q, p). SegmentSplitPoints E st agnstA agnstB srfA srfB q p @ [p])
                 (zip (prev # ps) ps))"
  by (induction ps arbitrary: prev) simp_all

lemma subseq_SplitLoop: "subseq ps (SplitLoop E st agnstA agnstB srfA srfB prev ps)"
proof (induction ps arbitrary: prev)
  case Nil
  show ?case by simp
next
  case (Cons p ps)
  have "subseq (p # ps) (p # SplitLoop E st agnstA agnstB srfA srfB p ps)"
    using Cons.IH [of p] by (rule subseq_Cons2)
  then show ?case
    by (simp add: list_emb_append2)
qed

lemma last_SplitLoop:
  "last (q # SplitLoop E st agnstA agnstB srfA srfB prev ps) = last (q # ps)"
  by (induction ps arbitrary: prev q) simp_all

text \<open>
  Claim C5. For every non-empty input curve, \<open>MakeCopySplitAgainst\<close> returns a curve whose
  point sequence is the first original point followed, for each pair of consecutive
  original points \<open>(q, p)\<close>, by the points added for that segment and then \<open>p\<close>. So the
  result contains every original point in the original order, every added point stands
  strictly between two consecutive original points, and the first and last points of the
  result are the first and last points of the input.
\<close>

theorem MakeCopySplitAgainst_preserves_points:
  assumes "sc_pts this \<noteq> []"
  shows "\<exists>ret. MakeCopySplitAgainst E st this agnstA agnstB srfA srfB = Inr ret
     \<and> sc_pts ret =
         hd (sc_pts this) #
         concat (map (\<lambda>(q, p). SegmentSplitPoints E st agnstA agnstB srfA srfB q p @ [p])
                     (zip (sc_pts this) (tl (sc_pts this))))
     \<and> subseq (sc_pts this) (sc_pts ret)
     \<and> hd (sc_pts ret) = hd (sc_pts this)
     \<and> last (sc_pts ret) = last (sc_pts this)"
proof -
  from assms obtain p ps where pts: "sc_pts this = p # ps"
    by (cases "sc_pts this") auto
  let ?ret = "this\<lparr>sc_pts := p # SplitLoop E st agnstA agnstB srfA srfB p ps\<rparr>"
  have r: "MakeCopySplitAgainst E st this agnstA agnstB srfA srfB = Inr ?ret"
    by (simp add: MakeCopySplitAgainst_def pts)
  have f: "sc_pts ?ret =
         hd (sc_pts this) #
         concat (map (\<lambda>(q, p). SegmentSplitPoints E st agnstA agnstB srfA srfB q p @ [p])
                     (zip (sc_pts this) (tl (sc_pts this))))"
    by (simp add: pts SplitLoop_closed_form)
  have s: "subseq (sc_pts this) (sc_pts ?ret)"
    using subseq_SplitLoop [of ps E st agnstA agnstB srfA srfB p]
    by (simp add: pts)
  have h: "hd (sc_pts ?ret) = hd (sc_pts this)"
    by (simp add: pts)
  have l: "last (sc_pts ?ret) = last (sc_pts this)"
    using last_SplitLoop [of p E st agnstA agnstB srfA srfB p ps]
    by (simp add: pts)
  from r f s h l show ?thesis by blast
qed

theorem MakeCopySplitAgainst_preserves_points_witness:
  "sc_pts line_curve \<noteq> []
   \<and> MakeCopySplitAgainst split_env one_surface_store line_curve (Some 0) None None None =
       Inr (line_curve\<lparr>sc_pts :=
              [\<lparr>pt_tag = 0, pt_p = Vector 0 0 0, pt_vertex = True\<rparr>,
               \<lparr>pt_tag = 0, pt_p = Vector (1/2) 0 0, pt_vertex = True\<rparr>,
               \<lparr>pt_tag = 0, pt_p = Vector 1 0 0, pt_vertex = True\<rparr>]\<rparr>)"
proof -
  have ne: "sc_pts line_curve \<noteq> []"
    by (simp add: line_curve_def)
  have seg: "SegmentSplitPoints split_env one_surface_store (Some 0) None None None
               \<lparr>pt_tag = 0, pt_p = Vector 0 0 0, pt_vertex = True\<rparr>
               \<lparr>pt_tag = 0, pt_p = Vector 1 0 0, pt_vertex = True\<rparr>
             = [\<lparr>pt_tag = 0, pt_p = Vector (1/2) 0 0, pt_vertex = True\<rparr>]"
    by (simp add: SegmentSplitPoints_def split_env_def on_edge_inter_def example_store
        example_geometry SInter_RemoveTagged_def SInter_ClearTags_def RefineIntersection_def
        Vector_Minus_def)
  from MakeCopySplitAgainst_preserves_points [OF ne, of split_env one_surface_store
         "Some 0" None None None]
  obtain ret where
    r: "MakeCopySplitAgainst split_env one_surface_store line_curve (Some 0) None None None
          = Inr ret"
    and f: "sc_pts ret =
         hd (sc_pts line_curve) #
         concat (map (\<lambda>(q, p). SegmentSplitPoints split_env one_surface_store (Some 0) None
                       None None q p @ [p])
                     (zip (sc_pts line_curve) (tl (sc_pts line_curve))))"
    by blast
  have "sc_pts ret =
          [\<lparr>pt_tag = 0, pt_p = Vector 0 0 0, pt_vertex = True\<rparr>,
           \<lparr>pt_tag = 0, pt_p = Vector (1/2) 0 0, pt_vertex = True\<rparr>,
           \<lparr>pt_tag = 0, pt_p = Vector 1 0 0, pt_vertex = True\<rparr>]"
    unfolding f by (simp add: line_curve_def seg)
  moreover have "ret = line_curve\<lparr>sc_pts := sc_pts ret\<rparr>"
    using r by (auto simp: MakeCopySplitAgainst_def line_curve_def split: list.splits)
  ultimately show ?thesis using ne r by simp
qed

subsection \<open>Which intersections split a segment\<close>

text \<open>
  \<^verbatim>\<open>MinimumDistanceToEdge\<close> visits the edge of the node and the two subtrees; the edges on
  the \<open>more\<close> chain of a node do not enter the distance.
\<close>

lemma MinimumDistanceToEdge_ignores_more:
  "MinimumDistanceToEdge E (SBspUv a b bpos bneg bmore) p srf =
     MinimumDistanceToEdge E (SBspUv a b bpos bneg None) p srf"
  by simp








section \<open>Properties of the choosing points\<close>
































section \<open>Properties of the orchestrators\<close>

subsection \<open>Loops\<close>

lemma fold_invariant:
  assumes "P s" and "\<And>x t. P t \<Longrightarrow> P (g x t)"
  shows "P (fold g xs s)"
  using assms by (induction xs arbitrary: s) simp_all

lemma foldE_invariant:
  assumes "foldE f xs s = Inr s'" and "P s" and "\<And>x t t'. P t \<Longrightarrow> f x t = Inr t' \<Longrightarrow> P t'"
  shows "P s'"
  using assms by (induction xs arbitrary: s) (auto split: sum.splits)


lemma foldE_snoc:
  "foldE f (xs @ [x]) s = (case foldE f xs s of Inl e \<Rightarrow> Inl e | Inr t \<Rightarrow> f x t)"
  by (induction xs arbitrary: s) (auto split: sum.splits)

lemma foldE_upt_induct:
  assumes "foldE f [0..<n] s = Inr s'" and "P 0 s"
    and "\<And>k t t'. k < n \<Longrightarrow> P k t \<Longrightarrow> f k t = Inr t' \<Longrightarrow> P (Suc k) t'"
  shows "P n s'"
  using assms
proof (induction n arbitrary: s')
  case 0
  then show ?case by simp
next
  case (Suc n)
  from Suc.prems(1) obtain t where t: "foldE f [0..<n] s = Inr t" and ft: "f n t = Inr s'"
    by (auto simp: foldE_snoc split: sum.splits)
  have "P n t"
    by (rule Suc.IH [OF t Suc.prems(2)]) (use Suc.prems(3) in auto)
  with ft Suc.prems(3) [of n t s'] show ?case by simp
qed

lemma fold_as_foldE: "foldE (\<lambda>x s. Inr (g x s)) xs s = Inr (fold g xs s)"
  by (induction xs arbitrary: s) simp_all

lemma fold_upt_induct:
  assumes "P 0 s" and "\<And>k t. k < n \<Longrightarrow> P k t \<Longrightarrow> P (Suc k) (g k t)"
  shows "P n (fold g [0..<n] s)"
  using assms
proof (induction n)
  case 0
  then show ?case by simp
next
  case (Suc n)
  have "P n (fold g [0..<n] s)"
    by (rule Suc.IH [OF Suc.prems(1)]) (use Suc.prems(2) in auto)
  with Suc.prems(2) [of n] show ?case by simp
qed

lemma mapE_length: "mapE f xs = Inr ys \<Longrightarrow> length ys = length xs"
  by (induction xs arbitrary: ys) (auto split: sum.splits)

subsection \<open>Handles\<close>

lemma fold_max: "fold max hs (a::nat) = max a (fold max hs 0)"
proof (induction hs arbitrary: a)
  case Nil
  show ?case by simp
next
  case (Cons h hs)
  have "fold max (h # hs) a = fold max hs (max h a)" by simp
  also have "\<dots> = max (max h a) (fold max hs 0)" by (rule Cons.IH)
  also have "\<dots> = max a (max h (fold max hs 0))" by (simp add: max.commute max.left_commute)
  also have "max h (fold max hs 0) = fold max hs (max h 0)"
    using Cons.IH [of "max h 0"] by simp
  finally show ?case by simp
qed

lemma MaximumId_Cons: "MaximumId (h # hs) = max h (MaximumId hs)"
  using fold_max [of hs h] by (simp add: MaximumId_def)

lemma MaximumId_append: "MaximumId (xs @ ys) = max (MaximumId xs) (MaximumId ys)"
  by (induction xs) (simp_all add: MaximumId_Cons max.assoc, simp add: MaximumId_def)

lemma MaximumId_ge: "h \<in> set hs \<Longrightarrow> h \<le> MaximumId hs"
  by (induction hs) (auto simp: MaximumId_Cons)

lemma MaximumId_snoc_fresh: "MaximumId (hs @ [MaximumId hs + 1]) = MaximumId hs + 1"
  by (simp add: MaximumId_append MaximumId_Cons) (simp add: MaximumId_def)

lemma MaximumId_block: "MaximumId (hs @ [MaximumId hs + 1 ..< MaximumId hs + 1 + n]) = MaximumId hs + n"
proof (induction n)
  case 0
  show ?case by simp
next
  case (Suc n)
  have "[MaximumId hs + 1 ..< MaximumId hs + 1 + Suc n] =
          [MaximumId hs + 1 ..< MaximumId hs + 1 + n] @ [MaximumId hs + 1 + n]"
    by simp
  then have "MaximumId (hs @ [MaximumId hs + 1 ..< MaximumId hs + 1 + Suc n]) =
          max (MaximumId (hs @ [MaximumId hs + 1 ..< MaximumId hs + 1 + n])) (MaximumId [MaximumId hs + 1 + n])"
    by (metis MaximumId_append append.assoc)
  with Suc show ?case by (simp add: MaximumId_Cons) (simp add: MaximumId_def)
qed

lemma fresh_handles_refl: "fresh_handles hs hs"
  unfolding fresh_handles_def by (rule exI [of _ 0]) simp

lemma fresh_handles_add:
  assumes "fresh_handles hs hs'"
  shows "fresh_handles hs (hs' @ [MaximumId hs' + 1])"
proof -
  from assms obtain n where n: "hs' = hs @ [MaximumId hs + 1 ..< MaximumId hs + 1 + n]"
    by (auto simp: fresh_handles_def)
  have "MaximumId hs' = MaximumId hs + n"
    unfolding n by (rule MaximumId_block)
  then have "hs' @ [MaximumId hs' + 1] = hs @ [MaximumId hs + 1 ..< MaximumId hs + 1 + Suc n]"
    using n by simp
  then show ?thesis unfolding fresh_handles_def by blast
qed

lemma fresh_handles_trans:
  assumes "fresh_handles hs hs'" and "fresh_handles hs' hs''"
  shows "fresh_handles hs hs''"
proof -
  define m where "m = MaximumId hs"
  from assms obtain n k where n: "hs' = hs @ [m + 1 ..< m + 1 + n]"
    and k: "hs'' = hs' @ [MaximumId hs' + 1 ..< MaximumId hs' + 1 + k]"
    by (auto simp: fresh_handles_def m_def)
  have mx: "MaximumId hs' = m + n"
    unfolding n m_def by (rule MaximumId_block)
  have k': "hs'' = hs' @ [m + 1 + n ..< (m + 1 + n) + k]"
    using k by (simp add: mx add.commute add.left_commute)
  have "[m + 1 ..< (m + 1 + n) + k] = [m + 1 ..< m + 1 + n] @ [m + 1 + n ..< (m + 1 + n) + k]"
    by (rule upt_add_eq_append) simp
  then have "hs'' = hs @ [m + 1 ..< (m + 1 + n) + k]"
    unfolding k' n by simp
  then have "hs'' = hs @ [m + 1 ..< m + 1 + (n + k)]"
    by (simp add: add.assoc)
  then show ?thesis unfolding fresh_handles_def m_def by blast
qed

lemma fresh_handles_length: "fresh_handles hs hs' \<Longrightarrow> length hs \<le> length hs'"
  by (auto simp: fresh_handles_def)

lemma fresh_handles_drop_mono:
  assumes "fresh_handles hs' hs''" and "h \<in> set (drop k hs')"
  shows "h \<in> set (drop k hs'')"
proof -
  from assms(1) obtain n where "hs'' = hs' @ [MaximumId hs' + 1 ..< MaximumId hs' + 1 + n]"
    by (auto simp: fresh_handles_def)
  with assms(2) show ?thesis by auto
qed

lemma fresh_handles_designates_one:
  assumes f: "fresh_handles hs hs'" and h: "h \<in> set (drop (length hs) hs')"
  shows "\<exists>!j. j < length hs' \<and> hs' ! j = h"
    and "\<forall>j. j < length hs' \<and> hs' ! j = h \<longrightarrow> length hs \<le> j"
proof -
  from f obtain n where n: "hs' = hs @ [MaximumId hs + 1 ..< MaximumId hs + 1 + n]"
    by (auto simp: fresh_handles_def)
  let ?m = "MaximumId hs"
  from h n have hr: "?m + 1 \<le> h" "h < ?m + 1 + n" by auto
  have nth: "\<And>j. j < length hs' \<Longrightarrow> hs' ! j = h \<longleftrightarrow> j = length hs + (h - (?m + 1))"
  proof -
    fix j assume j: "j < length hs'"
    show "hs' ! j = h \<longleftrightarrow> j = length hs + (h - (?m + 1))"
    proof (cases "j < length hs")
      case True
      then have "hs' ! j \<in> set hs" by (simp add: n nth_append)
      from MaximumId_ge [OF this] hr True show ?thesis by auto
    next
      case False
      from j False have jn: "j - length hs < n"
        unfolding n by (simp del: upt_Suc)
      have "hs' ! j = [?m + 1 ..< ?m + 1 + n] ! (j - length hs)"
        unfolding n using False by (simp only: nth_append if_False)
      also have "\<dots> = ?m + 1 + (j - length hs)"
        by (rule nth_upt) (use jn in linarith)
      finally show ?thesis using False hr by auto
    qed
  qed
  have len: "length hs + (h - (?m + 1)) < length hs'"
    using hr by (simp add: n)
  show "\<exists>!j. j < length hs' \<and> hs' ! j = h"
  proof (rule ex1I [of _ "length hs + (h - (?m + 1))"])
    show "length hs + (h - (?m + 1)) < length hs' \<and> hs' ! (length hs + (h - (?m + 1))) = h"
      using nth [OF len] len by blast
  next
    fix j assume "j < length hs' \<and> hs' ! j = h"
    with nth [of j] show "j = length hs + (h - (?m + 1))" by blast
  qed
  show "\<forall>j. j < length hs' \<and> hs' ! j = h \<longrightarrow> length hs \<le> j"
  proof (intro allI impI)
    fix j assume "j < length hs' \<and> hs' ! j = h"
    with nth [of j] have "j = length hs + (h - (?m + 1))" by blast
    then show "length hs \<le> j" by simp
  qed
qed


subsection \<open>The store\<close>

lemma curve_set_curves [simp]:
  "curve (set_curves st sh l x) = (if x = sh then l else curve (st x))"
  by (simp add: set_curves_def)

lemma surface_set_curves [simp]: "surface (set_curves st sh l x) = surface (st x)"
  by (simp add: set_curves_def)

lemma booleanFailed_set_curves [simp]:
  "booleanFailed (set_curves st sh l x) = booleanFailed (st x)"
  by (simp add: set_curves_def)

lemma set_curves_other [simp]: "x \<noteq> sh \<Longrightarrow> set_curves st sh l x = st x"
  by (simp add: set_curves_def)

lemma surface_set_surfaces [simp]:
  "surface (set_surfaces st sh l x) = (if x = sh then l else surface (st x))"
  by (simp add: set_surfaces_def)

lemma curve_set_surfaces [simp]: "curve (set_surfaces st sh l x) = curve (st x)"
  by (simp add: set_surfaces_def)

lemma booleanFailed_set_surfaces [simp]:
  "booleanFailed (set_surfaces st sh l x) = booleanFailed (st x)"
  by (simp add: set_surfaces_def)

lemma set_surfaces_other [simp]: "x \<noteq> sh \<Longrightarrow> set_surfaces st sh l x = st x"
  by (simp add: set_surfaces_def)

lemma map_update_same: "f y = f (xs ! i) \<Longrightarrow> map f (xs[i := y]) = map f xs"
  by (induction xs arbitrary: i) (auto split: nat.splits)

lemma same_but_scratch_refl [simp]: "same_but_scratch sh sh"
  by (simp add: same_but_scratch_def)

lemma same_but_scratch_trans:
  "same_but_scratch s1 s2 \<Longrightarrow> same_but_scratch s2 s3 \<Longrightarrow> same_but_scratch s1 s3"
  by (simp add: same_but_scratch_def)

lemma progress_refl [simp]: "progress this st st"
  by (simp add: progress_def fresh_handles_refl)

lemma progress_trans:
  "progress this st1 st2 \<Longrightarrow> progress this st2 st3 \<Longrightarrow> progress this st1 st3"
  unfolding progress_def
  by (blast intro: fresh_handles_trans same_but_scratch_trans)

lemma progress_lengths:
  assumes "progress this st st'"
  shows "length (curve (st this)) \<le> length (curve (st' this))"
    and "length (surface (st this)) \<le> length (surface (st' this))"
  using assms fresh_handles_length [of "map sc_h (curve (st this))" "map sc_h (curve (st' this))"]
    fresh_handles_length [of "map ss_h (surface (st this))" "map ss_h (surface (st' this))"]
  by (simp_all add: progress_def)

subsection \<open>Adding a copy and noting its handle\<close>

lemma AddCurveAndNoteNewH_into:
  "into \<noteq> owner \<Longrightarrow>
   curve (AddCurveAndNoteNewH into owner i scn st into) =
     curve (st into) @ [scn\<lparr>sc_h := MaximumId (map sc_h (curve (st into))) + 1\<rparr>]"
  by (simp add: AddCurveAndNoteNewH_def SCurve_AddAndAssignId_def Let_def)

lemma AddCurveAndNoteNewH_owner:
  "into \<noteq> owner \<Longrightarrow>
   curve (AddCurveAndNoteNewH into owner i scn st owner) =
     (curve (st owner))[i := (curve (st owner) ! i)
        \<lparr>sc_newH := MaximumId (map sc_h (curve (st into))) + 1\<rparr>]"
  by (simp add: AddCurveAndNoteNewH_def SCurve_AddAndAssignId_def Let_def)

lemma AddCurveAndNoteNewH_other:
  "x \<noteq> into \<Longrightarrow> x \<noteq> owner \<Longrightarrow> AddCurveAndNoteNewH into owner i scn st x = st x"
  by (simp add: AddCurveAndNoteNewH_def SCurve_AddAndAssignId_def Let_def)

lemma AddCurveAndNoteNewH_rest:
  "surface (AddCurveAndNoteNewH into owner i scn st x) = surface (st x)"
  "booleanFailed (AddCurveAndNoteNewH into owner i scn st x) = booleanFailed (st x)"
  by (simp_all add: AddCurveAndNoteNewH_def SCurve_AddAndAssignId_def Let_def)

lemma AddCurveAndNoteNewH_progress:
  assumes "into \<noteq> owner"
  shows "progress into st (AddCurveAndNoteNewH into owner i scn st)"
proof -
  let ?st' = "AddCurveAndNoteNewH into owner i scn st"
  have c: "fresh_handles (map sc_h (curve (st into))) (map sc_h (curve (?st' into)))"
    using fresh_handles_add [OF fresh_handles_refl, of "map sc_h (curve (st into))"]
    by (simp add: AddCurveAndNoteNewH_into [OF assms])
  have s: "fresh_handles (map ss_h (surface (st into))) (map ss_h (surface (?st' into)))"
    by (simp add: AddCurveAndNoteNewH_rest fresh_handles_refl)
  have o: "same_but_scratch (st x) (?st' x)" if "x \<noteq> into" for x
  proof (cases "x = owner")
    case True
    show ?thesis
      unfolding True same_but_scratch_def
      by (simp add: AddCurveAndNoteNewH_rest AddCurveAndNoteNewH_owner [OF assms]
          map_update_same strip_curve_def)
  next
    case False
    with that show ?thesis by (simp add: AddCurveAndNoteNewH_other)
  qed
  from c s o show ?thesis by (simp add: progress_def)
qed

lemma AddSurfaceAndNoteNewH_into:
  "into \<noteq> owner \<Longrightarrow>
   surface (AddSurfaceAndNoteNewH into owner i ssn st into) =
     surface (st into) @ [ssn\<lparr>ss_h := MaximumId (map ss_h (surface (st into))) + 1\<rparr>]"
  by (simp add: AddSurfaceAndNoteNewH_def SSurface_AddAndAssignId_def Let_def)

lemma AddSurfaceAndNoteNewH_owner:
  "into \<noteq> owner \<Longrightarrow>
   surface (AddSurfaceAndNoteNewH into owner i ssn st owner) =
     (surface (st owner))[i := (surface (st owner) ! i)
        \<lparr>ss_newH := MaximumId (map ss_h (surface (st into))) + 1\<rparr>]"
  by (simp add: AddSurfaceAndNoteNewH_def SSurface_AddAndAssignId_def Let_def)

lemma AddSurfaceAndNoteNewH_other:
  "x \<noteq> into \<Longrightarrow> x \<noteq> owner \<Longrightarrow> AddSurfaceAndNoteNewH into owner i ssn st x = st x"
  by (simp add: AddSurfaceAndNoteNewH_def SSurface_AddAndAssignId_def Let_def)

lemma AddSurfaceAndNoteNewH_rest:
  "curve (AddSurfaceAndNoteNewH into owner i ssn st x) = curve (st x)"
  "booleanFailed (AddSurfaceAndNoteNewH into owner i ssn st x) = booleanFailed (st x)"
  by (simp_all add: AddSurfaceAndNoteNewH_def SSurface_AddAndAssignId_def Let_def)

lemma AddSurfaceAndNoteNewH_progress:
  assumes "into \<noteq> owner"
  shows "progress into st (AddSurfaceAndNoteNewH into owner i ssn st)"
proof -
  let ?st' = "AddSurfaceAndNoteNewH into owner i ssn st"
  have s: "fresh_handles (map ss_h (surface (st into))) (map ss_h (surface (?st' into)))"
    using fresh_handles_add [OF fresh_handles_refl, of "map ss_h (surface (st into))"]
    by (simp add: AddSurfaceAndNoteNewH_into [OF assms])
  have c: "fresh_handles (map sc_h (curve (st into))) (map sc_h (curve (?st' into)))"
    by (simp add: AddSurfaceAndNoteNewH_rest fresh_handles_refl)
  have o: "same_but_scratch (st x) (?st' x)" if "x \<noteq> into" for x
  proof (cases "x = owner")
    case True
    show ?thesis
      unfolding True same_but_scratch_def
      by (simp add: AddSurfaceAndNoteNewH_rest AddSurfaceAndNoteNewH_owner [OF assms]
          map_update_same strip_surface_def)
  next
    case False
    with that show ?thesis by (simp add: AddSurfaceAndNoteNewH_other)
  qed
  from c s o show ?thesis by (simp add: progress_def)
qed


subsection \<open>The copying loops\<close>

lemma copy_curves_loop:
  assumes run: "foldE f [0..<length (curve (st owner))] st = Inr st'"
    and step: "\<And>k t t'. f k t = Inr t' \<Longrightarrow> \<exists>scn. t' = AddCurveAndNoteNewH into owner k scn t"
    and ne: "into \<noteq> owner"
  shows "progress into st st'"
    and "curves_noted (length (curve (st into))) into owner st'"
    and "\<forall>x. x \<noteq> into \<longrightarrow> x \<noteq> owner \<longrightarrow> st' x = st x"
    and "\<forall>x. surface (st' x) = surface (st x)"
    and "\<forall>x. booleanFailed (st' x) = booleanFailed (st x)"
proof -
  define n where "n = length (curve (st owner))"
  define n0 where "n0 = length (curve (st into))"
  define P where "P k t \<longleftrightarrow>
       progress into st t \<and> length (curve (t owner)) = n
     \<and> (\<forall>i<k. sc_newH (curve (t owner) ! i) \<in> set (drop n0 (map sc_h (curve (t into)))))
     \<and> (\<forall>x. x \<noteq> into \<longrightarrow> x \<noteq> owner \<longrightarrow> t x = st x)
     \<and> (\<forall>x. surface (t x) = surface (st x))
     \<and> (\<forall>x. booleanFailed (t x) = booleanFailed (st x))" for k t
  have P0: "P 0 st" by (simp add: P_def n_def)
  have Pstep: "P (Suc k) t'" if k: "k < n" and Pk: "P k t" and f: "f k t = Inr t'" for k t t'
  proof -
    from step [OF f] obtain scn where t': "t' = AddCurveAndNoteNewH into owner k scn t" by blast
    let ?h = "MaximumId (map sc_h (curve (t into))) + 1"
    have pr: "progress into t t'"
      unfolding t' by (rule AddCurveAndNoteNewH_progress [OF ne])
    from Pk have p0: "progress into st t" and len: "length (curve (t owner)) = n"
      and old: "\<forall>i<k. sc_newH (curve (t owner) ! i) \<in> set (drop n0 (map sc_h (curve (t into))))"
      by (simp_all add: P_def)
    have n0le: "n0 \<le> length (curve (t into))"
      using progress_lengths(1) [OF p0] by (simp add: n0_def)
    have into: "map sc_h (curve (t' into)) = map sc_h (curve (t into)) @ [?h]"
      by (simp add: t' AddCurveAndNoteNewH_into [OF ne])
    have own: "curve (t' owner) = (curve (t owner))[k := (curve (t owner) ! k)\<lparr>sc_newH := ?h\<rparr>]"
      by (simp add: t' AddCurveAndNoteNewH_owner [OF ne])
    have new: "sc_newH (curve (t' owner) ! i) \<in> set (drop n0 (map sc_h (curve (t' into))))"
      if "i < Suc k" for i
    proof (cases "i = k")
      case True
      have "sc_newH (curve (t' owner) ! k) = ?h"
        using k len by (simp add: own)
      moreover have "?h \<in> set (drop n0 (map sc_h (curve (t' into))))"
        unfolding into using n0le by simp
      ultimately show ?thesis using True by simp
    next
      case False
      with that have ik: "i < k" by simp
      then have "curve (t' owner) ! i = curve (t owner) ! i"
        by (simp add: own)
      with old ik show ?thesis
        unfolding into using n0le by simp
    qed
    show ?thesis
      unfolding P_def
      using progress_trans [OF p0 pr] len new Pk
      by (simp add: P_def own)
         (simp add: t' AddCurveAndNoteNewH_other AddCurveAndNoteNewH_rest)
  qed
  have "P n st'"
    using foldE_upt_induct [of f n st st' P] run P0 Pstep by (simp add: n_def)
  then show "progress into st st'"
    and "\<forall>x. x \<noteq> into \<longrightarrow> x \<noteq> owner \<longrightarrow> st' x = st x"
    and "\<forall>x. surface (st' x) = surface (st x)"
    and "\<forall>x. booleanFailed (st' x) = booleanFailed (st x)"
    by (simp_all add: P_def)
  from \<open>P n st'\<close> show "curves_noted (length (curve (st into))) into owner st'"
    unfolding curves_noted_def P_def n0_def [symmetric]
    by (auto simp: in_set_conv_nth)
qed


lemma copy_surfaces_loop:
  assumes run: "foldE f [0..<length (surface (st owner))] st = Inr st'"
    and step: "\<And>k t t'. f k t = Inr t' \<Longrightarrow>
       \<exists>ssn t2. (\<forall>x. x \<noteq> into \<longrightarrow> t2 x = t x) \<and> curve (t2 into) = curve (t into)
          \<and> surface (t2 into) = surface (t into)
          \<and> t' = AddSurfaceAndNoteNewH into owner k ssn t2"
    and ne: "into \<noteq> owner"
  shows "progress into st st'"
    and "surfaces_noted (length (surface (st into))) into owner st'"
    and "\<forall>x. x \<noteq> into \<longrightarrow> x \<noteq> owner \<longrightarrow> st' x = st x"
    and "\<forall>x. curve (st' x) = curve (st x)"
    and "\<forall>x. x \<noteq> into \<longrightarrow> booleanFailed (st' x) = booleanFailed (st x)"
proof -
  define n where "n = length (surface (st owner))"
  define n0 where "n0 = length (surface (st into))"
  define P where "P k t \<longleftrightarrow>
       progress into st t \<and> length (surface (t owner)) = n
     \<and> (\<forall>i<k. ss_newH (surface (t owner) ! i) \<in> set (drop n0 (map ss_h (surface (t into)))))
     \<and> (\<forall>x. x \<noteq> into \<longrightarrow> x \<noteq> owner \<longrightarrow> t x = st x)
     \<and> (\<forall>x. curve (t x) = curve (st x))
     \<and> (\<forall>x. x \<noteq> into \<longrightarrow> booleanFailed (t x) = booleanFailed (st x))" for k t
  have P0: "P 0 st" by (simp add: P_def n_def)
  have Pstep: "P (Suc k) t'" if k: "k < n" and Pk: "P k t" and f: "f k t = Inr t'" for k t t'
  proof -
    from step [OF f] obtain ssn t2 where t2: "\<forall>x. x \<noteq> into \<longrightarrow> t2 x = t x"
      and t2c: "curve (t2 into) = curve (t into)" and t2s: "surface (t2 into) = surface (t into)"
      and t': "t' = AddSurfaceAndNoteNewH into owner k ssn t2"
      by blast
    from t2 ne have t2o: "t2 owner = t owner" by simp
    let ?h = "MaximumId (map ss_h (surface (t into))) + 1"
    have pr2: "progress into t t2"
      using t2 by (simp add: progress_def t2c t2s fresh_handles_refl)
    have pr: "progress into t2 t'"
      unfolding t' by (rule AddSurfaceAndNoteNewH_progress [OF ne])
    from Pk have p0: "progress into st t" and len: "length (surface (t owner)) = n"
      and old: "\<forall>i<k. ss_newH (surface (t owner) ! i) \<in> set (drop n0 (map ss_h (surface (t into))))"
      by (simp_all add: P_def)
    have n0le: "n0 \<le> length (surface (t into))"
      using progress_lengths(2) [OF p0] by (simp add: n0_def)
    have into: "map ss_h (surface (t' into)) = map ss_h (surface (t into)) @ [?h]"
      by (simp add: t' AddSurfaceAndNoteNewH_into [OF ne] t2s)
    have own: "surface (t' owner) =
                 (surface (t owner))[k := (surface (t owner) ! k)\<lparr>ss_newH := ?h\<rparr>]"
      by (simp add: t' AddSurfaceAndNoteNewH_owner [OF ne] t2s t2o)
    have new: "ss_newH (surface (t' owner) ! i) \<in> set (drop n0 (map ss_h (surface (t' into))))"
      if "i < Suc k" for i
    proof (cases "i = k")
      case True
      have "ss_newH (surface (t' owner) ! k) = ?h"
        using k len by (simp add: own)
      moreover have "?h \<in> set (drop n0 (map ss_h (surface (t' into))))"
        unfolding into using n0le by simp
      ultimately show ?thesis using True by simp
    next
      case False
      with that have ik: "i < k" by simp
      then have "surface (t' owner) ! i = surface (t owner) ! i"
        by (simp add: own)
      with old ik show ?thesis
        unfolding into using n0le by simp
    qed
    have oth: "\<forall>x. x \<noteq> into \<longrightarrow> x \<noteq> owner \<longrightarrow> t' x = st x"
      using Pk t2 by (simp add: P_def t' AddSurfaceAndNoteNewH_other)
    have cv: "\<forall>x. curve (t' x) = curve (st x)"
    proof
      fix x
      have "curve (t' x) = curve (t2 x)" by (simp add: t' AddSurfaceAndNoteNewH_rest)
      also have "\<dots> = curve (t x)" using t2 t2c by (cases "x = into") simp_all
      finally show "curve (t' x) = curve (st x)" using Pk by (simp add: P_def)
    qed
    have bf: "\<forall>x. x \<noteq> into \<longrightarrow> booleanFailed (t' x) = booleanFailed (st x)"
      using Pk t2 by (simp add: P_def t' AddSurfaceAndNoteNewH_rest)
    show ?thesis
      unfolding P_def
      using progress_trans [OF p0 progress_trans [OF pr2 pr]] len new oth cv bf
      by (simp add: own)
  qed
  have "P n st'"
    using foldE_upt_induct [of f n st st' P] run P0 Pstep by (simp add: n_def)
  then show "progress into st st'"
    and "\<forall>x. x \<noteq> into \<longrightarrow> x \<noteq> owner \<longrightarrow> st' x = st x"
    and "\<forall>x. curve (st' x) = curve (st x)"
    and "\<forall>x. x \<noteq> into \<longrightarrow> booleanFailed (st' x) = booleanFailed (st x)"
    by (simp_all add: P_def)
  from \<open>P n st'\<close> show "surfaces_noted (length (surface (st into))) into owner st'"
    unfolding surfaces_noted_def P_def n0_def [symmetric]
    by (auto simp: in_set_conv_nth)
qed


subsection \<open>Steps that leave the operands' curves and handles alone\<close>

lemma quiet_refl [simp]: "quiet this st st"
  by (simp add: quiet_def)

lemma quiet_trans: "quiet this s1 s2 \<Longrightarrow> quiet this s2 s3 \<Longrightarrow> quiet this s1 s3"
  unfolding quiet_def by (auto intro: progress_trans)

lemma quietI_this_only:
  assumes "\<forall>x. x \<noteq> this \<longrightarrow> st' x = st x"
    and "fresh_handles (map sc_h (curve (st this))) (map sc_h (curve (st' this)))"
    and "fresh_handles (map ss_h (surface (st this))) (map ss_h (surface (st' this)))"
  shows "quiet this st st'"
  using assms by (simp add: quiet_def progress_def)

lemma quietI_operand_surfaces:
  assumes "x \<noteq> this" and "\<forall>y. y \<noteq> x \<longrightarrow> st' y = st y"
    and "curve (st' x) = curve (st x)" and "booleanFailed (st' x) = booleanFailed (st x)"
    and "map ss_newH (surface (st' x)) = map ss_newH (surface (st x))"
    and "map strip_surface (surface (st' x)) = map strip_surface (surface (st x))"
  shows "quiet this st st'"
proof -
  have "same_but_scratch (st y) (st' y)" for y
    using assms by (cases "y = x") (simp_all add: same_but_scratch_def)
  moreover have "st' this = st this" using assms by simp
  moreover have "curve (st' y) = curve (st y)
      \<and> map ss_newH (surface (st' y)) = map ss_newH (surface (st y))" for y
    using assms by (cases "y = x") simp_all
  ultimately show ?thesis
    by (simp add: quiet_def progress_def fresh_handles_refl)
qed

lemma curves_noted_weaken:
  assumes "curves_noted n1 this x st" and "n0 \<le> n1"
  shows "curves_noted n0 this x st"
proof -
  have "set (drop n1 (map sc_h (curve (st this)))) \<subseteq> set (drop n0 (map sc_h (curve (st this))))"
    using assms(2) by (rule set_drop_subset_set_drop)
  with assms(1) show ?thesis unfolding curves_noted_def by blast
qed

lemma surfaces_noted_weaken:
  assumes "surfaces_noted n1 this x st" and "n0 \<le> n1"
  shows "surfaces_noted n0 this x st"
proof -
  have "set (drop n1 (map ss_h (surface (st this)))) \<subseteq> set (drop n0 (map ss_h (surface (st this))))"
    using assms(2) by (rule set_drop_subset_set_drop)
  with assms(1) show ?thesis unfolding surfaces_noted_def by blast
qed

lemma curves_noted_preserved:
  assumes "curves_noted n0 this x st" and "progress this st st'"
    and "curve (st' x) = curve (st x)"
  shows "curves_noted n0 this x st'"
  unfolding curves_noted_def
proof
  fix c assume "c \<in> set (curve (st' x))"
  with assms(1,3) have "sc_newH c \<in> set (drop n0 (map sc_h (curve (st this))))"
    by (simp add: curves_noted_def)
  moreover from assms(2)
  have "fresh_handles (map sc_h (curve (st this))) (map sc_h (curve (st' this)))"
    by (simp add: progress_def)
  ultimately show "sc_newH c \<in> set (drop n0 (map sc_h (curve (st' this))))"
    by (rule fresh_handles_drop_mono [rotated])
qed

lemma surfaces_noted_preserved:
  assumes "surfaces_noted n0 this x st" and "progress this st st'"
    and "map ss_newH (surface (st' x)) = map ss_newH (surface (st x))"
  shows "surfaces_noted n0 this x st'"
  unfolding surfaces_noted_def
proof
  fix s assume "s \<in> set (surface (st' x))"
  then have "ss_newH s \<in> set (map ss_newH (surface (st' x)))" by simp
  then have "ss_newH s \<in> set (map ss_newH (surface (st x)))" by (simp only: assms(3))
  then obtain s0 where "s0 \<in> set (surface (st x))" and "ss_newH s0 = ss_newH s" by auto
  with assms(1) have "ss_newH s \<in> set (drop n0 (map ss_h (surface (st this))))"
    by (auto simp: surfaces_noted_def)
  moreover from assms(2)
  have "fresh_handles (map ss_h (surface (st this))) (map ss_h (surface (st' this)))"
    by (simp add: progress_def)
  ultimately show "ss_newH s \<in> set (drop n0 (map ss_h (surface (st' this))))"
    by (rule fresh_handles_drop_mono [rotated])
qed

lemma CleanupAfterBoolean_quiet:
  assumes "x \<noteq> this"
  shows "quiet this st (CleanupAfterBoolean st x)"
  by (rule quietI_operand_surfaces [OF assms])
     (simp_all add: CleanupAfterBoolean_def strip_surface_def comp_def)

lemma CleanupAfterBoolean_edges:
  "s \<in> set (surface (CleanupAfterBoolean st x x)) \<Longrightarrow> ss_edges s = []"
  by (auto simp: CleanupAfterBoolean_def)

lemma MakeClassifyingBsp_facts:
  "\<forall>y. y \<noteq> x \<longrightarrow> MakeClassifyingBsp E x ucf i st y = st y"
  "curve (MakeClassifyingBsp E x ucf i st x) = curve (st x)"
  "booleanFailed (MakeClassifyingBsp E x ucf i st x) = booleanFailed (st x)"
  "map ss_newH (surface (MakeClassifyingBsp E x ucf i st x)) = map ss_newH (surface (st x))"
  "map strip_surface (surface (MakeClassifyingBsp E x ucf i st x)) =
     map strip_surface (surface (st x))"
  by (simp_all add: MakeClassifyingBsp_def Let_def map_update_same strip_surface_def)

lemma MakeClassifyingBsps_quiet:
  assumes "x \<noteq> this"
  shows "quiet this st (MakeClassifyingBsps E x ucf st)"
  unfolding MakeClassifyingBsps_def
proof (rule fold_invariant [where P = "quiet this st"])
  show "quiet this st st" by simp
next
  fix i t assume "quiet this st t"
  moreover have "quiet this t (MakeClassifyingBsp E x ucf i t)"
    by (rule quietI_operand_surfaces [OF assms]) (simp_all add: MakeClassifyingBsp_facts)
  ultimately show "quiet this st (MakeClassifyingBsp E x ucf i t)"
    by (rule quiet_trans)
qed

lemma AddCurves_quiet: "quiet into st (AddCurves into cs st)"
  unfolding AddCurves_def
proof (rule fold_invariant [where P = "quiet into st"])
  show "quiet into st st" by simp
next
  fix sc t assume q: "quiet into st t"
  let ?t' = "set_curves t into (snd (SCurve_AddAndAssignId (curve (t into)) sc))"
  have "quiet into t ?t'"
  proof (rule quietI_this_only)
    show "\<forall>x. x \<noteq> into \<longrightarrow> ?t' x = t x" by simp
    show "fresh_handles (map sc_h (curve (t into))) (map sc_h (curve (?t' into)))"
      using fresh_handles_add [OF fresh_handles_refl, of "map sc_h (curve (t into))"]
      by (simp add: SCurve_AddAndAssignId_def Let_def)
    show "fresh_handles (map ss_h (surface (t into))) (map ss_h (surface (?t' into)))"
      by (simp add: fresh_handles_refl)
  qed
  with q show "quiet into st ?t'" by (rule quiet_trans)
qed

lemma MakeIntersectionCurvesAgainst_quiet:
  "quiet into st (MakeIntersectionCurvesAgainst E this agnst into st)"
  unfolding MakeIntersectionCurvesAgainst_def
proof (rule fold_invariant [where P = "quiet into st"])
  show "quiet into st st" by simp
next
  fix ia t assume q: "quiet into st t"
  show "quiet into st
          (fold (\<lambda>ib st. AddCurves into (IntersectAgainst E st (this, ia) (agnst, ib) this agnst into) st)
             [0..<length (surface (t agnst))] t)"
  proof (rule fold_invariant [where P = "quiet into st"])
    show "quiet into st t" by (rule q)
  next
    fix ib u assume "quiet into st u"
    then show "quiet into st
                 (AddCurves into (IntersectAgainst E u (this, ia) (agnst, ib) this agnst into) u)"
      using AddCurves_quiet quiet_trans by blast
  qed
qed


subsection \<open>Finding by handle\<close>

lemma index_of_Some: "index_of hs hv = Some i \<Longrightarrow> i < length hs \<and> hs ! i = hv"
  by (induction hs arbitrary: i) (auto split: if_splits)

lemma SSurface_FindById_Inr:
  "SSurface_FindById l hv = Inr i \<Longrightarrow> i < length l \<and> ss_h (l ! i) = hv"
  using index_of_Some [of "map ss_h l" hv i]
  by (auto simp: SSurface_FindById_def split: option.splits)

lemma GetSurfaceA_Inr:
  "GetSurfaceA st sc a b = Inr pa \<Longrightarrow>
     (fst pa = a \<or> fst pa = b) \<and> snd pa < length (surface (st (fst pa)))"
  by (auto simp: GetSurfaceA_def Let_def split: sum.splits if_splits
      dest: SSurface_FindById_Inr)

lemma GetSurfaceB_Inr:
  "GetSurfaceB st sc a b = Inr pb \<Longrightarrow>
     (fst pb = a \<or> fst pb = b) \<and> snd pb < length (surface (st (fst pb)))"
  by (auto simp: GetSurfaceB_def Let_def split: sum.splits if_splits
      dest: SSurface_FindById_Inr)

lemma SurfaceAt_newH:
  assumes "(fst p = a \<or> fst p = b) \<and> snd p < length (surface (st (fst p)))"
  shows "ss_newH (SurfaceAt st p) \<in> ss_newH ` (set (surface (st a)) \<union> set (surface (st b)))"
  using assms by (auto simp: SurfaceAt_def)

subsection \<open>The loops over the curves of the result\<close>

lemma RemoveShortSegments_loop_quiet:
  assumes "foldE (RemoveShortSegments_step E this a b) xs st = Inr st'"
  shows "quiet this st st'"
proof (rule foldE_invariant [OF assms, where P = "quiet this st"])
  show "quiet this st st" by simp
next
  fix i t t' assume q: "quiet this st t" and f: "RemoveShortSegments_step E this a b i t = Inr t'"
  from f obtain pts where t': "t' = set_curves t this
        ((curve (t this))[i := (curve (t this) ! i)\<lparr>sc_pts := pts\<rparr>])"
    by (auto simp: RemoveShortSegments_step_def Let_def split: sum.splits)
  have "quiet this t t'"
  proof (rule quietI_this_only)
    show "\<forall>x. x \<noteq> this \<longrightarrow> t' x = t x" by (simp add: t')
    show "fresh_handles (map sc_h (curve (t this))) (map sc_h (curve (t' this)))"
      by (simp add: t' map_update_same fresh_handles_refl)
    show "fresh_handles (map ss_h (surface (t this))) (map ss_h (surface (t' this)))"
      by (simp add: t' fresh_handles_refl)
  qed
  with q show "quiet this st t'" by (rule quiet_trans)
qed

lemma RewriteSurfaceHandles_step_facts:
  assumes f: "RewriteSurfaceHandles_step this a b i t = Inr t'"
    and ne: "this \<noteq> a" "this \<noteq> b"
  shows "\<forall>x. x \<noteq> this \<longrightarrow> t' x = t x"
    and "surface (t' this) = surface (t this)"
    and "booleanFailed (t' this) = booleanFailed (t this)"
    and "\<exists>c. curve (t' this) = (curve (t this))[i := c] \<and> sc_h c = sc_h (curve (t this) ! i)
           \<and> sc_surfA c \<in> ss_newH ` (set (surface (t a)) \<union> set (surface (t b)))
           \<and> sc_surfB c \<in> ss_newH ` (set (surface (t a)) \<union> set (surface (t b)))"
proof -
  let ?sc = "curve (t this) ! i"
  from f obtain pa where pa: "GetSurfaceA t ?sc a b = Inr pa"
    by (auto simp: RewriteSurfaceHandles_step_def Let_def split: sum.splits)
  let ?sc1 = "?sc\<lparr>sc_surfA := ss_newH (SurfaceAt t pa)\<rparr>"
  from f pa obtain pb where pb: "GetSurfaceB t ?sc1 a b = Inr pb"
    by (auto simp: RewriteSurfaceHandles_step_def Let_def split: sum.splits)
  let ?c = "?sc1\<lparr>sc_surfB := ss_newH (SurfaceAt t pb)\<rparr>"
  from f pa pb have t': "t' = set_curves t this ((curve (t this))[i := ?c])"
    by (simp add: RewriteSurfaceHandles_step_def Let_def)
  show "\<forall>x. x \<noteq> this \<longrightarrow> t' x = t x" by (simp add: t')
  show "surface (t' this) = surface (t this)" by (simp add: t')
  show "booleanFailed (t' this) = booleanFailed (t this)" by (simp add: t')
  have "sc_surfA ?c \<in> ss_newH ` (set (surface (t a)) \<union> set (surface (t b)))"
    using SurfaceAt_newH [of pa a b t, OF GetSurfaceA_Inr [OF pa]] by simp
  moreover have "sc_surfB ?c \<in> ss_newH ` (set (surface (t a)) \<union> set (surface (t b)))"
    using SurfaceAt_newH [of pb a b t, OF GetSurfaceB_Inr [OF pb]] by simp
  moreover have "curve (t' this) = (curve (t this))[i := ?c]" by (simp add: t')
  moreover have "sc_h ?c = sc_h ?sc" by simp
  ultimately show "\<exists>c. curve (t' this) = (curve (t this))[i := c]
           \<and> sc_h c = sc_h (curve (t this) ! i)
           \<and> sc_surfA c \<in> ss_newH ` (set (surface (t a)) \<union> set (surface (t b)))
           \<and> sc_surfB c \<in> ss_newH ` (set (surface (t a)) \<union> set (surface (t b)))"
    by blast
qed

lemma RewriteSurfaceHandlesForCurves_facts:
  assumes run: "RewriteSurfaceHandlesForCurves this a b st = Inr st'"
    and ne: "this \<noteq> a" "this \<noteq> b"
  shows "quiet this st st'"
    and "\<forall>x. x \<noteq> this \<longrightarrow> st' x = st x"
    and "surface (st' this) = surface (st this)"
    and "booleanFailed (st' this) = booleanFailed (st this)"
    and "surfs_resolved this a b st'"
proof -
  define n where "n = length (curve (st this))"
  define R where "R = ss_newH ` (set (surface (st a)) \<union> set (surface (st b)))"
  define P where "P k t \<longleftrightarrow>
       (\<forall>x. x \<noteq> this \<longrightarrow> t x = st x) \<and> surface (t this) = surface (st this)
     \<and> booleanFailed (t this) = booleanFailed (st this)
     \<and> map sc_h (curve (t this)) = map sc_h (curve (st this))
     \<and> (\<forall>i<k. sc_surfA (curve (t this) ! i) \<in> R \<and> sc_surfB (curve (t this) ! i) \<in> R)"
    for k t
  have P0: "P 0 st" by (simp add: P_def)
  have Pstep: "P (Suc k) t'"
    if k: "k < n" and Pk: "P k t" and f: "RewriteSurfaceHandles_step this a b k t = Inr t'"
    for k t t'
  proof -
    from Pk ne have ta: "t a = st a" and tb: "t b = st b" by (simp_all add: P_def)
    from Pk have len: "length (curve (t this)) = n"
      unfolding P_def n_def by (metis length_map)
    from RewriteSurfaceHandles_step_facts [OF f ne]
    obtain c where oth: "\<forall>x. x \<noteq> this \<longrightarrow> t' x = t x"
      and sf: "surface (t' this) = surface (t this)"
      and bf: "booleanFailed (t' this) = booleanFailed (t this)"
      and cv: "curve (t' this) = (curve (t this))[k := c]"
      and ch: "sc_h c = sc_h (curve (t this) ! k)"
      and cA: "sc_surfA c \<in> R" and cB: "sc_surfB c \<in> R"
      unfolding R_def ta tb by blast
    have res: "sc_surfA (curve (t' this) ! i) \<in> R \<and> sc_surfB (curve (t' this) ! i) \<in> R"
      if "i < Suc k" for i
    proof (cases "i = k")
      case True
      with k len cA cB show ?thesis by (simp add: cv)
    next
      case False
      with that Pk show ?thesis by (simp add: cv P_def)
    qed
    show ?thesis
      unfolding P_def using Pk oth sf bf res
      by (simp add: P_def cv map_update_same ch)
  qed
  have Pn: "P n st'"
    using foldE_upt_induct [of "RewriteSurfaceHandles_step this a b" n st st' P] run P0 Pstep
    by (simp add: n_def RewriteSurfaceHandlesForCurves_def)
  then show oth: "\<forall>x. x \<noteq> this \<longrightarrow> st' x = st x"
    and "surface (st' this) = surface (st this)"
    and "booleanFailed (st' this) = booleanFailed (st this)"
    by (simp_all add: P_def)
  from Pn show "quiet this st st'"
    by (intro quietI_this_only) (simp_all add: P_def fresh_handles_refl)
  from Pn have len: "length (curve (st' this)) = n"
    unfolding P_def n_def by (metis length_map)
  from oth ne have "st' a = st a" "st' b = st b" by simp_all
  with Pn len show "surfs_resolved this a b st'"
    unfolding surfs_resolved_def P_def R_def
    by (auto simp: in_set_conv_nth)
qed


subsection \<open>The copying loops of the two orchestrators\<close>

lemma MakeCopyTrimAgainst_store:
  assumes "MakeCopyTrimAgainst E ss parent sha shb into type st = Inr (ssn, st2)"
  shows "st2 = st \<or> st2 = st(into := (st into)\<lparr>booleanFailed := True\<rparr>)"
  using assms
  by (auto simp: MakeCopyTrimAgainst_def Let_def split: sum.splits if_splits)

lemma AssemblyCurve_loop:
  assumes "this \<noteq> ab"
    and "st' = fold (AssemblyCurve_step E this ab src) [0..<length (curve (st ab))] st"
  shows "progress this st st'"
    and "curves_noted (length (curve (st this))) this ab st'"
    and "\<forall>x. x \<noteq> this \<longrightarrow> x \<noteq> ab \<longrightarrow> st' x = st x"
    and "\<forall>x. surface (st' x) = surface (st x)"
    and "\<forall>x. booleanFailed (st' x) = booleanFailed (st x)"
proof -
  have run: "foldE (\<lambda>i s. Inr (AssemblyCurve_step E this ab src i s))
                [0..<length (curve (st ab))] st = Inr st'"
    by (simp add: fold_as_foldE assms(2))
  have step: "\<exists>scn. t' = AddCurveAndNoteNewH this ab k scn t"
    if "Inr (AssemblyCurve_step E this ab src k t) = (Inr t' :: error + store)" for k t t'
    using that by (auto simp: AssemblyCurve_step_def Let_def)
  note L = copy_curves_loop [OF run step assms(1)]
  show "progress this st st'" by (rule L(1))
  show "curves_noted (length (curve (st this))) this ab st'" by (rule L(2))
  show "\<forall>x. x \<noteq> this \<longrightarrow> x \<noteq> ab \<longrightarrow> st' x = st x" by (rule L(3))
  show "\<forall>x. surface (st' x) = surface (st x)" by (rule L(4))
  show "\<forall>x. booleanFailed (st' x) = booleanFailed (st x)" by (rule L(5))
qed

lemma AssemblySurface_loop:
  assumes "this \<noteq> ab"
    and run: "foldE (AssemblySurface_step E this ab) [0..<length (surface (st ab))] st = Inr st'"
  shows "progress this st st'"
    and "surfaces_noted (length (surface (st this))) this ab st'"
    and "\<forall>x. x \<noteq> this \<longrightarrow> x \<noteq> ab \<longrightarrow> st' x = st x"
    and "\<forall>x. curve (st' x) = curve (st x)"
    and "\<forall>x. x \<noteq> this \<longrightarrow> booleanFailed (st' x) = booleanFailed (st x)"
proof -
  have step: "\<exists>ssn t2. (\<forall>x. x \<noteq> this \<longrightarrow> t2 x = t x) \<and> curve (t2 this) = curve (t this)
          \<and> surface (t2 this) = surface (t this)
          \<and> t' = AddSurfaceAndNoteNewH this ab k ssn t2"
    if "AssemblySurface_step E this ab k t = Inr t'" for k t t'
    using that by (auto simp: AssemblySurface_step_def Let_def split: sum.splits)
  note L = copy_surfaces_loop [OF run step assms(1)]
  show "progress this st st'" by (rule L(1))
  show "surfaces_noted (length (surface (st this))) this ab st'" by (rule L(2))
  show "\<forall>x. x \<noteq> this \<longrightarrow> x \<noteq> ab \<longrightarrow> st' x = st x" by (rule L(3))
  show "\<forall>x. curve (st' x) = curve (st x)" by (rule L(4))
  show "\<forall>x. x \<noteq> this \<longrightarrow> booleanFailed (st' x) = booleanFailed (st x)" by (rule L(5))
qed

lemma CopyCurvesSplitAgainst_facts:
  assumes "into \<noteq> this"
    and run: "CopyCurvesSplitAgainst E opA this agnst into st = Inr st'"
  shows "progress into st st'"
    and "curves_noted (length (curve (st into))) into this st'"
    and "\<forall>x. x \<noteq> into \<longrightarrow> x \<noteq> this \<longrightarrow> st' x = st x"
    and "\<forall>x. surface (st' x) = surface (st x)"
    and "\<forall>x. booleanFailed (st' x) = booleanFailed (st x)"
proof -
  have step: "\<exists>scn. t' = AddCurveAndNoteNewH into this k scn t"
    if "CopyCurvesSplitAgainst_step E opA this agnst into k t = Inr t'" for k t t'
    using that by (auto simp: CopyCurvesSplitAgainst_step_def Let_def split: sum.splits)
  note L = copy_curves_loop [OF run [unfolded CopyCurvesSplitAgainst_def] step assms(1)]
  show "progress into st st'" by (rule L(1))
  show "curves_noted (length (curve (st into))) into this st'" by (rule L(2))
  show "\<forall>x. x \<noteq> into \<longrightarrow> x \<noteq> this \<longrightarrow> st' x = st x" by (rule L(3))
  show "\<forall>x. surface (st' x) = surface (st x)" by (rule L(4))
  show "\<forall>x. booleanFailed (st' x) = booleanFailed (st x)" by (rule L(5))
qed

lemma CopySurfacesTrimAgainst_facts:
  assumes "into \<noteq> this"
    and run: "CopySurfacesTrimAgainst E this sha shb into type st = Inr st'"
  shows "progress into st st'"
    and "surfaces_noted (length (surface (st into))) into this st'"
    and "\<forall>x. x \<noteq> into \<longrightarrow> x \<noteq> this \<longrightarrow> st' x = st x"
    and "\<forall>x. curve (st' x) = curve (st x)"
    and "\<forall>x. x \<noteq> into \<longrightarrow> booleanFailed (st' x) = booleanFailed (st x)"
proof -
  have step: "\<exists>ssn t2. (\<forall>x. x \<noteq> into \<longrightarrow> t2 x = t x) \<and> curve (t2 into) = curve (t into)
          \<and> surface (t2 into) = surface (t into)
          \<and> t' = AddSurfaceAndNoteNewH into this k ssn t2"
    if f: "CopySurfacesTrimAgainst_step E this sha shb into type k t = Inr t'" for k t t'
  proof -
    from f obtain ssn t2 where
      m: "MakeCopyTrimAgainst E (surface (t this) ! k) this sha shb into type t = Inr (ssn, t2)"
      and t': "t' = AddSurfaceAndNoteNewH into this k ssn t2"
      by (auto simp: CopySurfacesTrimAgainst_step_def split: sum.splits)
    from MakeCopyTrimAgainst_store [OF m]
    have "(\<forall>x. x \<noteq> into \<longrightarrow> t2 x = t x) \<and> curve (t2 into) = curve (t into)
          \<and> surface (t2 into) = surface (t into)"
      by auto
    with t' show ?thesis by blast
  qed
  note L = copy_surfaces_loop [OF run [unfolded CopySurfacesTrimAgainst_def] step assms(1)]
  show "progress into st st'" by (rule L(1))
  show "surfaces_noted (length (surface (st into))) into this st'" by (rule L(2))
  show "\<forall>x. x \<noteq> into \<longrightarrow> x \<noteq> this \<longrightarrow> st' x = st x" by (rule L(3))
  show "\<forall>x. curve (st' x) = curve (st x)" by (rule L(4))
  show "\<forall>x. x \<noteq> into \<longrightarrow> booleanFailed (st' x) = booleanFailed (st x)" by (rule L(5))
qed


subsection \<open>Composing the steps of an orchestrator\<close>

lemma quiet_progress: "quiet this st st' \<Longrightarrow> progress this st st'"
  by (simp add: quiet_def)

lemma curves_noted_quiet:
  assumes "curves_noted n0 this x st" and "quiet this st st'" and "x \<noteq> this"
  shows "curves_noted n0 this x st'"
  using assms(1) quiet_progress [OF assms(2)]
proof (rule curves_noted_preserved)
  show "curve (st' x) = curve (st x)" using assms(2,3) by (simp add: quiet_def)
qed

lemma surfaces_noted_quiet:
  assumes "surfaces_noted n0 this x st" and "quiet this st st'" and "x \<noteq> this"
  shows "surfaces_noted n0 this x st'"
  using assms(1) quiet_progress [OF assms(2)]
proof (rule surfaces_noted_preserved)
  show "map ss_newH (surface (st' x)) = map ss_newH (surface (st x))"
    using assms(2,3) by (simp add: quiet_def)
qed

lemma curves_noted_both:
  assumes a: "curves_noted n0 this a s1" and p: "progress this s1 s2"
    and b: "curves_noted (length (curve (s1 this))) this b s2"
    and n: "n0 \<le> length (curve (s1 this))"
    and oth: "\<forall>x. x \<noteq> this \<longrightarrow> x \<noteq> b \<longrightarrow> s2 x = s1 x" and ne: "a \<noteq> this"
  shows "curves_noted n0 this a s2 \<and> curves_noted n0 this b s2"
proof -
  have nb: "curves_noted n0 this b s2" using b n by (rule curves_noted_weaken)
  have "curves_noted n0 this a s2"
  proof (cases "a = b")
    case True
    with nb show ?thesis by simp
  next
    case False
    with oth ne have "curve (s2 a) = curve (s1 a)" by simp
    with a p show ?thesis by (rule curves_noted_preserved)
  qed
  with nb show ?thesis by simp
qed

lemma surfaces_noted_both:
  assumes a: "surfaces_noted n0 this a s1" and p: "progress this s1 s2"
    and b: "surfaces_noted (length (surface (s1 this))) this b s2"
    and n: "n0 \<le> length (surface (s1 this))"
    and oth: "\<forall>x. x \<noteq> this \<longrightarrow> x \<noteq> b \<longrightarrow> s2 x = s1 x" and ne: "a \<noteq> this"
  shows "surfaces_noted n0 this a s2 \<and> surfaces_noted n0 this b s2"
proof -
  have nb: "surfaces_noted n0 this b s2" using b n by (rule surfaces_noted_weaken)
  have "surfaces_noted n0 this a s2"
  proof (cases "a = b")
    case True
    with nb show ?thesis by simp
  next
    case False
    with oth ne have "map ss_newH (surface (s2 a)) = map ss_newH (surface (s1 a))" by simp
    with a p show ?thesis by (rule surfaces_noted_preserved)
  qed
  with nb show ?thesis by simp
qed

lemma surfs_resolved_preserved:
  assumes r: "surfs_resolved this a b st" and c: "curve (st' this) = curve (st this)"
    and a: "map ss_newH (surface (st' a)) = map ss_newH (surface (st a))"
    and b: "map ss_newH (surface (st' b)) = map ss_newH (surface (st b))"
  shows "surfs_resolved this a b st'"
proof -
  have "ss_newH ` (set (surface (st' a)) \<union> set (surface (st' b))) =
          set (map ss_newH (surface (st' a))) \<union> set (map ss_newH (surface (st' b)))"
    by (simp add: image_Un)
  also have "\<dots> = ss_newH ` (set (surface (st a)) \<union> set (surface (st b)))"
    by (simp only: a b) (simp add: image_Un)
  finally show ?thesis using r by (simp add: surfs_resolved_def c)
qed

lemma surfs_resolved_quiet:
  assumes "surfs_resolved this a b st" and "quiet this st st'"
    and "curve (st' this) = curve (st this)" and "a \<noteq> this" and "b \<noteq> this"
  shows "surfs_resolved this a b st'"
  using assms(1,3)
proof (rule surfs_resolved_preserved)
  show "map ss_newH (surface (st' a)) = map ss_newH (surface (st a))"
    using assms(2,4) by (simp add: quiet_def)
  show "map ss_newH (surface (st' b)) = map ss_newH (surface (st b))"
    using assms(2,5) by (simp add: quiet_def)
qed

lemma clear_flag_quiet: "quiet this st (st(this := (st this)\<lparr>booleanFailed := False\<rparr>))"
  by (rule quietI_this_only) (simp_all add: fresh_handles_refl)


subsection \<open>The assembly\<close>

lemma MakeFromAssemblyOf_facts:
  assumes run: "MakeFromAssemblyOf E this a b st = Inr st'"
    and ne: "this \<noteq> a" "this \<noteq> b"
  shows "progress this st st'"
    and "curves_noted (length (curve (st this))) this a st'"
    and "curves_noted (length (curve (st this))) this b st'"
    and "surfaces_noted (length (surface (st this))) this a st'"
    and "surfaces_noted (length (surface (st this))) this b st'"
    and "surfs_resolved this a b st'"
proof -
  define s0 where "s0 = st(this := (st this)\<lparr>booleanFailed := False\<rparr>)"
  define s1 where "s1 = fold (AssemblyCurve_step E this a Source_A) [0..<length (curve (s0 a))] s0"
  define s2 where "s2 = fold (AssemblyCurve_step E this b Source_B) [0..<length (curve (s1 b))] s1"
  from run obtain s3 s4 where
    r3: "foldE (AssemblySurface_step E this a) [0..<length (surface (s2 a))] s2 = Inr s3"
    and r4: "foldE (AssemblySurface_step E this b) [0..<length (surface (s3 b))] s3 = Inr s4"
    and r5: "RewriteSurfaceHandlesForCurves this a b s4 = Inr st'"
    unfolding MakeFromAssemblyOf_def Let_def s0_def [symmetric] s1_def [symmetric]
      s2_def [symmetric]
    by (auto split: sum.splits)
  note nea = ne(1) [symmetric] and neb = ne(2) [symmetric]
  have p0: "progress this st s0" unfolding s0_def by (rule quiet_progress [OF clear_flag_quiet])
  have c0: "curve (s0 this) = curve (st this)" and f0: "surface (s0 this) = surface (st this)"
    by (simp_all add: s0_def)
  note L1 = AssemblyCurve_loop [OF ne(1) s1_def]
  note L2 = AssemblyCurve_loop [OF ne(2) s2_def]
  note L3 = AssemblySurface_loop [OF ne(1) r3]
  note L4 = AssemblySurface_loop [OF ne(2) r4]
  note L5 = RewriteSurfaceHandlesForCurves_facts [OF r5 ne]
  have p1: "progress this st s1" using p0 L1(1) by (rule progress_trans)
  have p2: "progress this st s2" using p1 L2(1) by (rule progress_trans)
  have p3: "progress this st s3" using p2 L3(1) by (rule progress_trans)
  have p4: "progress this st s4" using p3 L4(1) by (rule progress_trans)
  show p5: "progress this st st'" using p4 quiet_progress [OF L5(1)] by (rule progress_trans)
  have "curves_noted (length (curve (st this))) this a s1" using L1(2) by (simp add: c0)
  moreover have "length (curve (st this)) \<le> length (curve (s1 this))"
    using progress_lengths(1) [OF p1] .
  ultimately have c2: "curves_noted (length (curve (st this))) this a s2
      \<and> curves_noted (length (curve (st this))) this b s2"
    using curves_noted_both [OF _ L2(1) L2(2) _ L2(3) nea] by blast
  have cs3: "curve (s3 x) = curve (s2 x)" for x using L3(4) by simp
  have cs4: "curve (s4 x) = curve (s3 x)" for x using L4(4) by simp
  have c4: "curves_noted (length (curve (st this))) this x s4"
    if "curves_noted (length (curve (st this))) this x s2" for x
    using curves_noted_preserved [OF curves_noted_preserved [OF that L3(1) cs3] L4(1) cs4] .
  show "curves_noted (length (curve (st this))) this a st'"
    using curves_noted_quiet [OF c4 L5(1) nea] c2 by simp
  show "curves_noted (length (curve (st this))) this b st'"
    using curves_noted_quiet [OF c4 L5(1) neb] c2 by simp
  have f2: "surface (s2 this) = surface (st this)"
    using L1(4) L2(4) by (simp add: f0)
  have "surfaces_noted (length (surface (st this))) this a s3" using L3(2) by (simp add: f2)
  moreover have "length (surface (st this)) \<le> length (surface (s3 this))"
    using progress_lengths(2) [OF p3] .
  ultimately have f4: "surfaces_noted (length (surface (st this))) this a s4
      \<and> surfaces_noted (length (surface (st this))) this b s4"
    using surfaces_noted_both [OF _ L4(1) L4(2) _ L4(3) nea] by blast
  show "surfaces_noted (length (surface (st this))) this a st'"
    using surfaces_noted_quiet [OF _ L5(1) nea] f4 by simp
  show "surfaces_noted (length (surface (st this))) this b st'"
    using surfaces_noted_quiet [OF _ L5(1) neb] f4 by simp
  show "surfs_resolved this a b st'" by (rule L5(5))
qed




subsection \<open>The Boolean\<close>

lemma case_sum_Inr:
  "(case x of Inl e \<Rightarrow> Inl e | Inr s \<Rightarrow> f s) = Inr r \<longleftrightarrow> (\<exists>s. x = Inr s \<and> f s = Inr r)"
  by (cases x) auto

lemma MakeFromBoolean_stages:
  assumes "MakeFromBoolean E this a b type st = Inr st'"
  obtains s2 s3 s4 s5 s6 s10 s11 s12 s13 where
    "s2 = MakeClassifyingBsps E b None (MakeClassifyingBsps E a None
            (st(this := (st this)\<lparr>booleanFailed := False\<rparr>)))"
    and "CopyCurvesSplitAgainst E True a b this s2 = Inr s3"
    and "CopyCurvesSplitAgainst E False b a this s3 = Inr s4"
    and "s5 = MakeIntersectionCurvesAgainst E a b this s4"
    and "foldE (RemoveShortSegments_step E this a b) [0..<length (curve (s5 this))] s5 = Inr s6"
    and "s10 = MakeClassifyingBsps E b (Some this) (MakeClassifyingBsps E a (Some this)
            (CleanupAfterBoolean (CleanupAfterBoolean s6 a) b))"
    and "CopySurfacesTrimAgainst E a a b this type s10 = Inr s11"
    and "CopySurfacesTrimAgainst E b a b this type s11 = Inr s12"
    and "RewriteSurfaceHandlesForCurves this a b s12 = Inr s13"
    and "st' = CleanupAfterBoolean (CleanupAfterBoolean s13 a) b"
proof -
  from assms have "\<exists>s3. CopyCurvesSplitAgainst E True a b this
        (MakeClassifyingBsps E b None (MakeClassifyingBsps E a None
            (st(this := (st this)\<lparr>booleanFailed := False\<rparr>)))) = Inr s3
     \<and> (\<exists>s4. CopyCurvesSplitAgainst E False b a this s3 = Inr s4
     \<and> (\<exists>s6. foldE (RemoveShortSegments_step E this a b)
            [0..<length (curve (MakeIntersectionCurvesAgainst E a b this s4 this))]
            (MakeIntersectionCurvesAgainst E a b this s4) = Inr s6
     \<and> (\<exists>s11. CopySurfacesTrimAgainst E a a b this type
            (MakeClassifyingBsps E b (Some this) (MakeClassifyingBsps E a (Some this)
              (CleanupAfterBoolean (CleanupAfterBoolean s6 a) b))) = Inr s11
     \<and> (\<exists>s12. CopySurfacesTrimAgainst E b a b this type s11 = Inr s12
     \<and> (\<exists>s13. RewriteSurfaceHandlesForCurves this a b s12 = Inr s13
     \<and> CleanupAfterBoolean (CleanupAfterBoolean s13 a) b = st')))))"
    unfolding MakeFromBoolean_def Let_def case_sum_Inr sum.inject .
  then show thesis
    using that by blast
qed


lemma MakeFromBoolean_facts:
  assumes run: "MakeFromBoolean E this a b type st = Inr st'"
    and ne: "this \<noteq> a" "this \<noteq> b"
  shows "progress this st st'"
    and "curves_noted (length (curve (st this))) this a st'"
    and "curves_noted (length (curve (st this))) this b st'"
    and "surfaces_noted (length (surface (st this))) this a st'"
    and "surfaces_noted (length (surface (st this))) this b st'"
    and "surfs_resolved this a b st'"
    and "\<forall>s \<in> set (surface (st' a)) \<union> set (surface (st' b)). ss_edges s = []"
proof -
  from run obtain s2 s3 s4 s5 s6 s10 s11 s12 s13 where
    s2_def: "s2 = MakeClassifyingBsps E b None (MakeClassifyingBsps E a None
            (st(this := (st this)\<lparr>booleanFailed := False\<rparr>)))"
    and r3: "CopyCurvesSplitAgainst E True a b this s2 = Inr s3"
    and r4: "CopyCurvesSplitAgainst E False b a this s3 = Inr s4"
    and s5_def: "s5 = MakeIntersectionCurvesAgainst E a b this s4"
    and r6: "foldE (RemoveShortSegments_step E this a b) [0..<length (curve (s5 this))] s5 = Inr s6"
    and s10_def: "s10 = MakeClassifyingBsps E b (Some this) (MakeClassifyingBsps E a (Some this)
            (CleanupAfterBoolean (CleanupAfterBoolean s6 a) b))"
    and r11: "CopySurfacesTrimAgainst E a a b this type s10 = Inr s11"
    and r12: "CopySurfacesTrimAgainst E b a b this type s11 = Inr s12"
    and r13: "RewriteSurfaceHandlesForCurves this a b s12 = Inr s13"
    and fin: "st' = CleanupAfterBoolean (CleanupAfterBoolean s13 a) b"
    by (rule MakeFromBoolean_stages)
  note nea = ne(1) [symmetric] and neb = ne(2) [symmetric]
  let ?nc = "length (curve (st this))" and ?ns = "length (surface (st this))"
  have q2: "quiet this st s2"
    unfolding s2_def
    by (intro quiet_trans [OF _ MakeClassifyingBsps_quiet] nea neb) (rule clear_flag_quiet)
  note L3 = CopyCurvesSplitAgainst_facts [OF ne(1) r3]
  note L4 = CopyCurvesSplitAgainst_facts [OF ne(2) r4]
  have p2: "progress this st s2" by (rule quiet_progress [OF q2])
  have p3: "progress this st s3" using p2 L3(1) by (rule progress_trans)
  have p4: "progress this st s4" using p3 L4(1) by (rule progress_trans)
  have "curves_noted ?nc this a s3"
    using L3(2) progress_lengths(1) [OF p2] by (rule curves_noted_weaken)
  moreover have "?nc \<le> length (curve (s3 this))"
    using progress_lengths(1) [OF p3] .
  ultimately have c4: "curves_noted ?nc this a s4 \<and> curves_noted ?nc this b s4"
    using curves_noted_both [OF _ L4(1) L4(2) _ L4(3) nea] by blast
  have q5: "quiet this s4 s5"
    unfolding s5_def by (rule MakeIntersectionCurvesAgainst_quiet)
  have q6: "quiet this s4 s6"
    using q5 RemoveShortSegments_loop_quiet [OF r6] by (rule quiet_trans)
  have q10: "quiet this s4 s10"
    unfolding s10_def
    by (intro quiet_trans [OF _ MakeClassifyingBsps_quiet]
          quiet_trans [OF _ CleanupAfterBoolean_quiet] nea neb) (rule q6)
  have p10: "progress this st s10" using p4 quiet_progress [OF q10] by (rule progress_trans)
  note L11 = CopySurfacesTrimAgainst_facts [OF ne(1) r11]
  note L12 = CopySurfacesTrimAgainst_facts [OF ne(2) r12]
  note L13 = RewriteSurfaceHandlesForCurves_facts [OF r13 ne]
  have p11: "progress this st s11" using p10 L11(1) by (rule progress_trans)
  have p12: "progress this st s12" using p11 L12(1) by (rule progress_trans)
  have qf: "quiet this s12 st'"
    unfolding fin
    by (intro quiet_trans [OF _ CleanupAfterBoolean_quiet] nea neb) (rule L13(1))
  show "progress this st st'" using p12 quiet_progress [OF qf] by (rule progress_trans)
  have cs11: "curve (s11 x) = curve (s10 x)" for x using L11(4) by simp
  have cs12: "curve (s12 x) = curve (s11 x)" for x using L12(4) by simp
  have cf: "curves_noted ?nc this x st'" if "curves_noted ?nc this x s4" and "x \<noteq> this" for x
    using curves_noted_quiet [OF curves_noted_preserved [OF curves_noted_preserved
      [OF curves_noted_quiet [OF that(1) q10 that(2)] L11(1) cs11] L12(1) cs12] qf that(2)] .
  show "curves_noted ?nc this a st'" using cf [OF _ nea] c4 by simp
  show "curves_noted ?nc this b st'" using cf [OF _ neb] c4 by simp
  have "surfaces_noted ?ns this a s11"
    using L11(2) progress_lengths(2) [OF p10] by (rule surfaces_noted_weaken)
  moreover have "?ns \<le> length (surface (s11 this))"
    using progress_lengths(2) [OF p11] .
  ultimately have f12: "surfaces_noted ?ns this a s12 \<and> surfaces_noted ?ns this b s12"
    using surfaces_noted_both [OF _ L12(1) L12(2) _ L12(3) nea] by blast
  show "surfaces_noted ?ns this a st'" using surfaces_noted_quiet [OF _ qf nea] f12 by simp
  show "surfaces_noted ?ns this b st'" using surfaces_noted_quiet [OF _ qf neb] f12 by simp
  have q13: "quiet this s13 st'"
    unfolding fin
    using CleanupAfterBoolean_quiet [OF nea, of s13]
      CleanupAfterBoolean_quiet [OF neb, of "CleanupAfterBoolean s13 a"]
    by (rule quiet_trans)
  have "curve (st' this) = curve (s13 this)"
    using ne by (simp add: fin CleanupAfterBoolean_def)
  with L13(5) q13 show "surfs_resolved this a b st'"
    using nea neb by (rule surfs_resolved_quiet)
  show "\<forall>s \<in> set (surface (st' a)) \<union> set (surface (st' b)). ss_edges s = []"
    unfolding fin by (cases "a = b") (auto simp: CleanupAfterBoolean_def)
qed


subsection \<open>The handles after a run\<close>

lemma same_but_scratch_lengths:
  assumes "same_but_scratch sh sh'"
  shows "length (curve sh') = length (curve sh)" and "length (surface sh') = length (surface sh)"
proof -
  from assms have "map strip_curve (curve sh') = map strip_curve (curve sh)"
    and "map strip_surface (surface sh') = map strip_surface (surface sh)"
    by (simp_all add: same_but_scratch_def)
  then show "length (curve sh') = length (curve sh)"
    and "length (surface sh') = length (surface sh)"
    by (metis length_map)+
qed

lemma curves_noted_designates:
  assumes p: "progress this st st'" and n: "curves_noted (length (curve (st this))) this x st'"
    and c: "c \<in> set (curve (st' x))"
  shows "designates_added_curve st st' this (sc_newH c)"
proof -
  let ?hs = "map sc_h (curve (st this))" and ?hs' = "map sc_h (curve (st' this))"
  from p have f: "fresh_handles ?hs ?hs'" by (simp add: progress_def)
  from n c have h: "sc_newH c \<in> set (drop (length ?hs) ?hs')"
    by (simp add: curves_noted_def)
  from fresh_handles_designates_one [OF f h]
  have one: "\<exists>!j. j < length ?hs' \<and> ?hs' ! j = sc_newH c"
    and add: "\<forall>j. j < length ?hs' \<and> ?hs' ! j = sc_newH c \<longrightarrow> length ?hs \<le> j"
    by blast+
  have eq: "(j < length ?hs' \<and> ?hs' ! j = sc_newH c) \<longleftrightarrow>
            (j < length (curve (st' this)) \<and> sc_h (curve (st' this) ! j) = sc_newH c)" for j
    by auto
  from one have "\<exists>!j. j < length (curve (st' this)) \<and> sc_h (curve (st' this) ! j) = sc_newH c"
    unfolding eq .
  moreover from add have "\<forall>j < length (curve (st' this)).
         sc_h (curve (st' this) ! j) = sc_newH c \<longrightarrow> length (curve (st this)) \<le> j"
    unfolding eq by simp
  ultimately show ?thesis by (simp add: designates_added_curve_def)
qed

lemma surfaces_noted_designates:
  assumes p: "progress this st st'" and n: "surfaces_noted (length (surface (st this))) this x st'"
    and c: "s \<in> set (surface (st' x))"
  shows "designates_added_surface st st' this (ss_newH s)"
proof -
  let ?hs = "map ss_h (surface (st this))" and ?hs' = "map ss_h (surface (st' this))"
  from p have f: "fresh_handles ?hs ?hs'" by (simp add: progress_def)
  from n c have h: "ss_newH s \<in> set (drop (length ?hs) ?hs')"
    by (simp add: surfaces_noted_def)
  from fresh_handles_designates_one [OF f h]
  have one: "\<exists>!j. j < length ?hs' \<and> ?hs' ! j = ss_newH s"
    and add: "\<forall>j. j < length ?hs' \<and> ?hs' ! j = ss_newH s \<longrightarrow> length ?hs \<le> j"
    by blast+
  have eq: "(j < length ?hs' \<and> ?hs' ! j = ss_newH s) \<longleftrightarrow>
            (j < length (surface (st' this)) \<and> ss_h (surface (st' this) ! j) = ss_newH s)" for j
    by auto
  from one have "\<exists>!j. j < length (surface (st' this)) \<and> ss_h (surface (st' this) ! j) = ss_newH s"
    unfolding eq .
  moreover from add have "\<forall>j < length (surface (st' this)).
         ss_h (surface (st' this) ! j) = ss_newH s \<longrightarrow> length (surface (st this)) \<le> j"
    unfolding eq by simp
  ultimately show ?thesis by (simp add: designates_added_surface_def)
qed

lemma handle_bijection_from_facts:
  assumes ne: "this \<noteq> a" "this \<noteq> b"
    and p: "progress this st st'"
    and ca: "curves_noted (length (curve (st this))) this a st'"
    and cb: "curves_noted (length (curve (st this))) this b st'"
    and sa: "surfaces_noted (length (surface (st this))) this a st'"
    and sb: "surfaces_noted (length (surface (st this))) this b st'"
    and r: "surfs_resolved this a b st'"
  shows "spec_handle_bijection st st' this a b"
proof -
  have ops: "length (curve (st' x)) = length (curve (st x))
        \<and> length (surface (st' x)) = length (surface (st x))
        \<and> (\<forall>c \<in> set (curve (st' x)). designates_added_curve st st' this (sc_newH c))
        \<and> (\<forall>s \<in> set (surface (st' x)). designates_added_surface st st' this (ss_newH s))"
    if x: "x = a \<or> x = b" for x
  proof -
    from x ne have "x \<noteq> this" by auto
    with p have "same_but_scratch (st x) (st' x)" by (simp add: progress_def)
    note len = same_but_scratch_lengths [OF this]
    from x ca cb have cn: "curves_noted (length (curve (st this))) this x st'" by auto
    from x sa sb have sn: "surfaces_noted (length (surface (st this))) this x st'" by auto
    from len curves_noted_designates [OF p cn] surfaces_noted_designates [OF p sn]
    show ?thesis by blast
  qed
  have in_result: "h \<in> ss_h ` set (surface (st' this))"
    if "h \<in> ss_newH ` (set (surface (st' a)) \<union> set (surface (st' b)))" for h
  proof -
    from that obtain s where "s \<in> set (surface (st' a)) \<union> set (surface (st' b))"
      and h: "h = ss_newH s" by blast
    with sa sb have "h \<in> set (drop (length (surface (st this))) (map ss_h (surface (st' this))))"
      by (auto simp: surfaces_noted_def)
    then have "h \<in> set (map ss_h (surface (st' this)))" by (rule in_set_dropD)
    then show ?thesis by simp
  qed
  have res: "sc_surfA c \<in> ss_h ` set (surface (st' this))
        \<and> sc_surfB c \<in> ss_h ` set (surface (st' this))"
    if "c \<in> set (curve (st' this))" for c
    using r that in_result unfolding surfs_resolved_def by blast
  from ops res show ?thesis
    unfolding spec_handle_bijection_def by blast
qed

lemmas shells_example =
  two_shells_def one_face_def face_def seam_trim_def seam_curve_def line_curve_def Plane_def

lemmas store_ops =
  AddCurveAndNoteNewH_def SCurve_AddAndAssignId_def AddSurfaceAndNoteNewH_def
  SSurface_AddAndAssignId_def set_curves_def set_surfaces_def MaximumId_def
  SCurve_FindById_def SSurface_FindById_def GetSurfaceA_def GetSurfaceB_def SurfaceAt_def

lemma assembly_run:
  "MakeFromAssemblyOf Euclid 0 3 2 two_shells = Inr assembly_result"
  unfolding MakeFromAssemblyOf_def RewriteSurfaceHandlesForCurves_def assembly_result_def
  by (simp add: AssemblyCurve_step_def AssemblySurface_step_def RewriteSurfaceHandles_step_def
        store_ops Let_def Euclid_def shells_example)
     (rule ext, simp add: shells_example)


lemma boolean_run:
  "MakeFromBoolean bool_env 0 3 2 UNION two_shells = Inr boolean_result"
  unfolding MakeFromBoolean_def RewriteSurfaceHandlesForCurves_def boolean_result_def
    CopyCurvesSplitAgainst_def CopySurfacesTrimAgainst_def MakeIntersectionCurvesAgainst_def
    MakeClassifyingBsps_def
  by (simp add: MakeClassifyingBsp_def SBspUv_From_def CopyCurvesSplitAgainst_step_def
        MakeCopySplitAgainst_def SegmentSplitPoints_def AddCurves_def
        RemoveShortSegments_step_def CleanupAfterBoolean_def
        CopySurfacesTrimAgainst_step_def MakeCopyTrimAgainst_def MakeCopyTrimAgainst_edges_def
        MakeCopyTrimAgainst_lists_def IntersectionEdges_def ChoosingPoints_def
        SPoint_RemoveTagged_def TrimFromEdgeList_def SEdge_ClearTags_def AddEdge_def
        Vector_ProjectXy_def
        RewriteSurfaceHandles_step_def store_ops Let_def bool_env_def Euclid_def orig_AB_def
        trim_node_def shells_example)
     (rule ext, simp add: shells_example trim_node_def)


text \<open>
  Claim C4. After \<open>MakeFromBoolean\<close> or \<open>MakeFromAssemblyOf\<close> has returned, for operand
  shells \<open>a\<close> and \<open>b\<close> other than the result shell: every curve and every surface of an
  operand has in its \<open>newH\<close> field a handle that designates exactly one curve or surface
  of the result shell, one that the run added, and every curve of the result shell has
  in \<open>surfA\<close> and \<open>surfB\<close> handles of surfaces of the result shell. The result shell is
  a third shell because the loops append to its lists while they traverse the lists of
  the operands; the two operands may be the same shell.
\<close>

theorem newH_designates_added_copy:
  assumes "this \<noteq> a" and "this \<noteq> b"
    and "MakeFromBoolean E this a b type st = Inr st'
       \<or> MakeFromAssemblyOf E this a b st = Inr st'"
  shows "spec_handle_bijection st st' this a b"
  using assms(3)
proof
  assume run: "MakeFromBoolean E this a b type st = Inr st'"
  note F = MakeFromBoolean_facts [OF run assms(1,2)]
  show ?thesis
    by (rule handle_bijection_from_facts [OF assms(1,2) F(1) F(2) F(3) F(4) F(5) F(6)])
next
  assume run: "MakeFromAssemblyOf E this a b st = Inr st'"
  note F = MakeFromAssemblyOf_facts [OF run assms(1,2)]
  show ?thesis
    by (rule handle_bijection_from_facts [OF assms(1,2) F(1) F(2) F(3) F(4) F(5) F(6)])
qed


text \<open>
  The union and the assembly of two shells of one face each: the curve of shell 3 is
  designated to the curve 1 of the result and its face to the surface 1, those of
  shell 2 to the curve 2 and the surface 2.
\<close>

theorem newH_designates_added_copy_witness:
  "(0::nat) \<noteq> 3 \<and> (0::nat) \<noteq> 2
   \<and> MakeFromBoolean bool_env 0 3 2 UNION two_shells = Inr boolean_result
   \<and> spec_handle_bijection two_shells boolean_result 0 3 2
   \<and> MakeFromAssemblyOf Euclid 0 3 2 two_shells = Inr assembly_result
   \<and> spec_handle_bijection two_shells assembly_result 0 3 2
   \<and> map sc_newH (curve (boolean_result 3)) = [1] \<and> map sc_newH (curve (boolean_result 2)) = [2]
   \<and> map ss_newH (surface (boolean_result 3)) = [1]
   \<and> map ss_newH (surface (boolean_result 2)) = [2]
   \<and> map sc_h (curve (boolean_result 0)) = [1, 2]
   \<and> map ss_h (surface (boolean_result 0)) = [1, 2]
   \<and> map sc_surfA (curve (boolean_result 0)) = [1, 2]
   \<and> map sc_surfB (curve (boolean_result 0)) = [1, 2]"
proof -
  have ne: "(0::nat) \<noteq> 3" "(0::nat) \<noteq> 2" by simp_all
  have b: "spec_handle_bijection two_shells boolean_result 0 3 2"
    using newH_designates_added_copy [OF ne, where E = bool_env and type = UNION
            and st = two_shells and st' = boolean_result]
    by (simp add: boolean_run)
  have a: "spec_handle_bijection two_shells assembly_result 0 3 2"
    using newH_designates_added_copy [OF ne, where E = Euclid and type = UNION
            and st = two_shells and st' = assembly_result]
    by (simp add: assembly_run)
  have "map sc_newH (curve (boolean_result 3)) = [1] \<and> map sc_newH (curve (boolean_result 2)) = [2]
   \<and> map ss_newH (surface (boolean_result 3)) = [1]
   \<and> map ss_newH (surface (boolean_result 2)) = [2]
   \<and> map sc_h (curve (boolean_result 0)) = [1, 2]
   \<and> map ss_h (surface (boolean_result 0)) = [1, 2]
   \<and> map sc_surfA (curve (boolean_result 0)) = [1, 2]
   \<and> map sc_surfB (curve (boolean_result 0)) = [1, 2]"
    by (simp add: boolean_result_def)
  with ne a b boolean_run assembly_run show ?thesis by blast
qed

subsection \<open>The flag of the assembly\<close>

lemma AssemblyCurve_step_flag:
  "booleanFailed (AssemblyCurve_step E this ab src i st x) = booleanFailed (st x)"
  by (simp add: AssemblyCurve_step_def Let_def AddCurveAndNoteNewH_rest)

lemma AssemblySurface_step_flag:
  assumes "AssemblySurface_step E this ab i st = Inr st'"
  shows "booleanFailed (st' x) = booleanFailed (st x)"
  using assms
  by (auto simp: AssemblySurface_step_def Let_def AddSurfaceAndNoteNewH_rest split: sum.splits)

lemma RewriteSurfaceHandles_step_flag:
  assumes "RewriteSurfaceHandles_step this a b i st = Inr st'"
  shows "booleanFailed (st' x) = booleanFailed (st x)"
  using assms
  by (auto simp: RewriteSurfaceHandles_step_def Let_def split: sum.splits)

lemma mapE_error:
  assumes "mapE f xs = Inl e" and "\<And>x e. f x = Inl e \<Longrightarrow> P e"
  shows "P e"
  using assms by (induction xs arbitrary: e) (auto split: sum.splits)

lemma foldE_error:
  assumes "foldE f xs s = Inl e" and "\<And>x t e. f x t = Inl e \<Longrightarrow> P e"
  shows "P e"
  using assms by (induction xs arbitrary: s) (auto split: sum.splits)

lemma FindById_error:
  "SCurve_FindById l h = Inl e \<Longrightarrow> e = Cannot_find_handle"
  "SSurface_FindById l' h = Inl e \<Longrightarrow> e = Cannot_find_handle"
  by (auto simp: SCurve_FindById_def SSurface_FindById_def split: option.splits)

lemma GetSurface_error:
  "GetSurfaceA st sc a b = Inl e \<Longrightarrow> e = Cannot_find_handle"
  "GetSurfaceB st sc a b = Inl e \<Longrightarrow> e = Cannot_find_handle"
  by (auto simp: GetSurfaceA_def GetSurfaceB_def Let_def FindById_error split: sum.splits)

lemma AssemblySurface_step_error:
  assumes "AssemblySurface_step E this ab i st = Inl e"
  shows "e = Cannot_find_handle"
proof -
  let ?f = "\<lambda>stb. case SCurve_FindById (curve (st ab)) (stb_curve stb) of
                            Inl e \<Rightarrow> Inl e
                          | Inr j \<Rightarrow> Inr (stb\<lparr>stb_curve := sc_newH (curve (st ab) ! j)\<rparr>)"
  from assms have "mapE ?f (ss_trim (SSurface_FromTransformationOf E (surface (st ab) ! i)
           (Vector 0 0 0) Quaternion_IDENTITY 1 True)) = Inl e"
    by (auto simp: AssemblySurface_step_def Let_def split: sum.splits)
  then show ?thesis
    by (rule mapE_error) (auto split: sum.splits dest: FindById_error)
qed

lemma RewriteSurfaceHandles_step_error:
  assumes "RewriteSurfaceHandles_step this a b i st = Inl e"
  shows "e = Cannot_find_handle"
  using assms
  by (auto simp: RewriteSurfaceHandles_step_def Let_def split: sum.splits dest: GetSurface_error)


text \<open>
  Claim C10. \<open>MakeFromAssemblyOf\<close> clears \<^verbatim>\<open>booleanFailed\<close> of the result shell on entry
  and no step of the assembly sets it: for every environment, every store and every
  choice of the three shells, a run that returns leaves the flag false. The only other
  outcome is the assertion of a lookup by handle (\<^verbatim>\<open>FindById\<close>, \<^verbatim>\<open>GetSurfaceA\<close>,
  \<^verbatim>\<open>GetSurfaceB\<close>) that finds no element, which stops the program.
\<close>

theorem MakeFromAssemblyOf_leaves_flag_false:
  "case MakeFromAssemblyOf E this a b st of
     Inl e \<Rightarrow> e = Cannot_find_handle
   | Inr st' \<Rightarrow> \<not> booleanFailed (st' this)"
proof -
  define s0 where "s0 = st(this := (st this)\<lparr>booleanFailed := False\<rparr>)"
  define s1 where "s1 = fold (AssemblyCurve_step E this a Source_A) [0..<length (curve (s0 a))] s0"
  define s2 where "s2 = fold (AssemblyCurve_step E this b Source_B) [0..<length (curve (s1 b))] s1"
  have run: "MakeFromAssemblyOf E this a b st =
    (case foldE (AssemblySurface_step E this a) [0..<length (surface (s2 a))] s2 of
       Inl e \<Rightarrow> Inl e
     | Inr s3 \<Rightarrow>
        (case foldE (AssemblySurface_step E this b) [0..<length (surface (s3 b))] s3 of
           Inl e \<Rightarrow> Inl e
         | Inr s4 \<Rightarrow> RewriteSurfaceHandlesForCurves this a b s4))"
    unfolding MakeFromAssemblyOf_def Let_def s0_def s1_def s2_def ..
  have f0: "\<not> booleanFailed (s0 this)" by (simp add: s0_def)
  have f1: "\<not> booleanFailed (s1 this)"
    unfolding s1_def
    by (rule fold_invariant [where P = "\<lambda>t. \<not> booleanFailed (t this)"])
       (simp_all add: f0 AssemblyCurve_step_flag)
  have f2: "\<not> booleanFailed (s2 this)"
    unfolding s2_def
    by (rule fold_invariant [where P = "\<lambda>t. \<not> booleanFailed (t this)"])
       (simp_all add: f1 AssemblyCurve_step_flag)
  have surf: "\<not> booleanFailed (t' this)"
    if "foldE (AssemblySurface_step E this ab) xs t = Inr t'" and "\<not> booleanFailed (t this)"
    for ab xs t t'
    by (rule foldE_invariant [OF that(1), where P = "\<lambda>t. \<not> booleanFailed (t this)"])
       (simp_all add: that(2) AssemblySurface_step_flag)
  have rew: "\<not> booleanFailed (t' this)"
    if "RewriteSurfaceHandlesForCurves this a b t = Inr t'" and "\<not> booleanFailed (t this)"
    for t t'
    by (rule foldE_invariant [OF that(1) [unfolded RewriteSurfaceHandlesForCurves_def],
          where P = "\<lambda>t. \<not> booleanFailed (t this)"])
       (simp_all add: that(2) RewriteSurfaceHandles_step_flag)
  have serr: "e = Cannot_find_handle"
    if "foldE (AssemblySurface_step E this ab) xs t = Inl e" for ab xs t e
    using that by (rule foldE_error) (rule AssemblySurface_step_error)
  have rerr: "e = Cannot_find_handle"
    if "RewriteSurfaceHandlesForCurves this a b t = Inl e" for t e
    using that [unfolded RewriteSurfaceHandlesForCurves_def]
    by (rule foldE_error) (rule RewriteSurfaceHandles_step_error)
  show ?thesis
  proof (cases "foldE (AssemblySurface_step E this a) [0..<length (surface (s2 a))] s2")
    case (Inl e)
    with serr [OF Inl] show ?thesis by (simp add: run)
  next
    case s3: (Inr s3)
    note f3 = surf [OF s3 f2]
    show ?thesis
    proof (cases "foldE (AssemblySurface_step E this b) [0..<length (surface (s3 b))] s3")
      case (Inl e)
      with serr [OF Inl] s3 show ?thesis by (simp add: run)
    next
      case s4: (Inr s4)
      note f4 = surf [OF s4 f3]
      show ?thesis
      proof (cases "RewriteSurfaceHandlesForCurves this a b s4")
        case (Inl e)
        with rerr [OF Inl] s3 s4 show ?thesis by (simp add: run)
      next
        case (Inr s5)
        with rew [OF Inr f4] s3 s4 show ?thesis by (simp add: run)
      qed
    qed
  qed
qed


text \<open>
  The assembly of two shells of one face each into a shell whose flag was set: the run
  returns and the flag is clear.
\<close>

theorem MakeFromAssemblyOf_leaves_flag_false_witness:
  "booleanFailed (two_shells 0)
   \<and> MakeFromAssemblyOf Euclid 0 3 2 two_shells = Inr assembly_result
   \<and> \<not> booleanFailed (assembly_result 0)"
proof -
  have "\<not> booleanFailed (assembly_result 0)"
    using MakeFromAssemblyOf_leaves_flag_false [where E = Euclid and this = 0 and a = 3
            and b = 2 and st = two_shells]
    by (simp add: assembly_run)
  moreover have "booleanFailed (two_shells 0)" by (simp add: two_shells_def)
  ultimately show ?thesis using assembly_run by simp
qed





end
